theory Spec2Isabelle
  imports Main "HOL-Library.Word" "HOL-Library.Monad_Syntax"
begin

unbundle bit_operations_syntax

section \<open>Data model (bootloader.h and the advanced bootloader core)\<close>

type_synonym u8 = "8 word"
type_synonym u32 = "32 word"

definition MAX_PACKET_SIZE :: nat where
  "MAX_PACKET_SIZE = 256"

definition BUFFER_SIZE :: nat where
  "BUFFER_SIZE = 16"

definition APPLICATION_START :: u32 where
  "APPLICATION_START = 0x08008000"

datatype bootloader_state_t =
    STATE_IDLE
  | STATE_DFU_ACTIVE
  | STATE_DFU_VERIFY
  | STATE_RUNNING_APP
  | STATE_EMERGENCY_RECOVERY
  | STATE_ERROR

text \<open>
  The packet type travels as the byte \<open>data[1]\<close>; the enumerators of
  \<open>packet_type_t\<close> are the byte values it is compared with.
\<close>

definition PKT_START_SESSION :: u8 where "PKT_START_SESSION = 0x01"
definition PKT_DATA :: u8 where "PKT_DATA = 0x02"
definition PKT_END_SESSION :: u8 where "PKT_END_SESSION = 0x03"
definition PKT_ABORT :: u8 where "PKT_ABORT = 0x04"
definition PKT_PING :: u8 where "PKT_PING = 0x05"
definition PKT_GET_STATUS :: u8 where "PKT_GET_STATUS = 0x06"
definition PKT_JUMP_APP :: u8 where "PKT_JUMP_APP = 0x07"
definition PKT_EMERGENCY_RESET :: u8 where "PKT_EMERGENCY_RESET = 0x08"
definition PKT_GET_VERSION :: u8 where "PKT_GET_VERSION = 0x09"

lemmas pkt_defs =
  PKT_START_SESSION_def PKT_DATA_def PKT_END_SESSION_def PKT_ABORT_def PKT_PING_def
  PKT_GET_STATUS_def PKT_JUMP_APP_def PKT_EMERGENCY_RESET_def PKT_GET_VERSION_def

text \<open>
  \<open>app_validation_t\<close> and \<open>packet_t\<close>. The array \<open>data[MAX_PACKET_SIZE]\<close> is a
  byte list that always has 256 entries; \<open>p_length\<close> is the \<open>size_t length\<close>.
\<close>

record app_validation_t =
  v_valid :: bool
  v_calculated_crc :: u32
  v_expected_crc :: u32
  v_size :: u32

record packet_t =
  p_data :: "u8 list"
  p_length :: nat
  p_valid :: bool

text \<open>What the wire I/O of platform.c is asked to transmit.\<close>

datatype response = ACK | NACK u8

text \<open>
  The process-wide instance \<open>bootloader\<close>. \<open>head\<close>, \<open>tail\<close> and \<open>count\<close> are C
  \<open>int\<close>s that stay within 0..16, kept as naturals. The last four fields are not
  members of the C struct: \<open>tick\<close> is the static counter of \<open>get_system_tick\<close>,
  \<open>flash_busy\<close> the static flag of platform.c, \<open>flash_writes\<close> the writes the flash
  driver accepted (address and bytes, in order), and \<open>sent\<close> the frames handed to
  \<open>send_ack_packet\<close> and \<open>send_nack_packet\<close>, oldest first.
\<close>

record bootloader =
  state :: bootloader_state_t
  previous_state :: bootloader_state_t
  buffer :: "packet_t list"
  head :: nat
  tail :: nat
  count :: nat
  expected_seq :: u32
  bytes_received :: u32
  total_size :: u32
  expected_crc :: u32
  session_active :: bool
  packets_processed :: u32
  packets_dropped :: u32
  error_count :: u32
  recovery_attempts :: u32
  app_launch_attempts :: u32
  state_entry_time :: u32
  last_activity_time :: u32
  session_timeout_ms :: u32
  app_validation_timeout_ms :: u32
  app_validation :: app_validation_t
  force_bootloader_mode :: bool
  tick :: u32
  flash_busy :: bool
  flash_writes :: "(u32 \<times> u8 list) list"
  sent :: "response list"

section \<open>Collaborators: tick source, wire output, flash driver\<close>

text \<open>\<open>get_system_tick\<close>: \<open>return tick += 1000\<close> on a \<open>uint32_t\<close>.\<close>

definition get_system_tick :: "bootloader \<Rightarrow> u32 \<times> bootloader" where
  "get_system_tick s = (tick s + 1000, s\<lparr>tick := tick s + 1000\<rparr>)"

definition send_ack_packet :: "bootloader \<Rightarrow> bootloader" where
  "send_ack_packet s = s\<lparr>sent := sent s @ [ACK]\<rparr>"

definition send_nack_packet :: "u8 \<Rightarrow> bootloader \<Rightarrow> bootloader" where
  "send_nack_packet error_code s = s\<lparr>sent := sent s @ [NACK error_code]\<rparr>"

text \<open>
  \<open>start_flash_write\<close> refuses while a write is in flight; otherwise it takes the
  bytes and becomes busy. The copy into \<open>mock_flash\<close> is kept as an entry of
  \<open>flash_writes\<close>; the extent of \<open>mock_flash\<close> is not part of the model.
\<close>

definition start_flash_write :: "u32 \<Rightarrow> u8 list \<Rightarrow> bootloader \<Rightarrow> bool \<times> bootloader" where
  "start_flash_write address bytes s =
     (if flash_busy s then (False, s)
      else (True, s\<lparr>flash_writes := flash_writes s @ [(address, bytes)], flash_busy := True\<rparr>))"

text \<open>
  \<open>is_flash_operation_complete\<close> compares the wall clock with the start of the
  write; \<open>elapsed\<close> says whether more than 2 ms have passed. The core ignores the
  returned flag.
\<close>

definition is_flash_operation_complete :: "bool \<Rightarrow> bootloader \<Rightarrow> bootloader" where
  "is_flash_operation_complete elapsed s =
     (if \<not> flash_busy s then s
      else if elapsed then s\<lparr>flash_busy := False\<rparr> else s)"

section \<open>State machine\<close>

fun validate_state_transition :: "bootloader_state_t \<Rightarrow> bootloader_state_t \<Rightarrow> bool" where
  "validate_state_transition STATE_IDLE to =
     (to = STATE_DFU_ACTIVE \<or> to = STATE_RUNNING_APP \<or>
      to = STATE_EMERGENCY_RECOVERY \<or> to = STATE_ERROR)"
| "validate_state_transition STATE_DFU_ACTIVE to =
     (to = STATE_DFU_VERIFY \<or> to = STATE_IDLE \<or>
      to = STATE_EMERGENCY_RECOVERY \<or> to = STATE_ERROR)"
| "validate_state_transition STATE_DFU_VERIFY to =
     (to = STATE_RUNNING_APP \<or> to = STATE_IDLE \<or>
      to = STATE_EMERGENCY_RECOVERY \<or> to = STATE_ERROR)"
| "validate_state_transition STATE_RUNNING_APP to =
     (to = STATE_IDLE \<or> to = STATE_EMERGENCY_RECOVERY \<or> to = STATE_ERROR)"
| "validate_state_transition STATE_EMERGENCY_RECOVERY to =
     (to = STATE_IDLE \<or> to = STATE_ERROR)"
| "validate_state_transition STATE_ERROR to =
     (to = STATE_IDLE \<or> to = STATE_EMERGENCY_RECOVERY)"

text \<open>
  The part of \<open>enter_state\<close> after the validity check: record the previous state,
  stamp the entry time, run the entry action of the new state.
\<close>

definition state_entry :: "bootloader_state_t \<Rightarrow> bootloader \<Rightarrow> bootloader" where
  "state_entry new_state s =
     (let s1 = s\<lparr>previous_state := state s, state := new_state\<rparr>;
          (t, s2) = get_system_tick s1;
          s3 = s2\<lparr>state_entry_time := t\<rparr>
      in case new_state of
           STATE_IDLE \<Rightarrow>
             s3\<lparr>session_active := False, expected_seq := 0, bytes_received := 0\<rparr>
         | STATE_DFU_ACTIVE \<Rightarrow> s3
         | STATE_DFU_VERIFY \<Rightarrow> s3
         | STATE_RUNNING_APP \<Rightarrow> s3\<lparr>app_launch_attempts := app_launch_attempts s3 + 1\<rparr>
         | STATE_EMERGENCY_RECOVERY \<Rightarrow>
             s3\<lparr>recovery_attempts := recovery_attempts s3 + 1,
                force_bootloader_mode := True\<rparr>
         | STATE_ERROR \<Rightarrow> s3\<lparr>error_count := error_count s3 + 1\<rparr>)"

text \<open>
  \<open>enter_state\<close> calls itself with \<open>STATE_ERROR\<close> when the transition is not in
  the table. Nothing changes between the two calls, so from \<open>STATE_ERROR\<close> the
  recursion does not end: the result \<open>None\<close> stands for a call that never returns.
\<close>

partial_function (option) enter_state :: "bootloader_state_t \<Rightarrow> bootloader \<Rightarrow> bootloader option" where
  "enter_state new_state s =
     (if \<not> validate_state_transition (state s) new_state
      then enter_state STATE_ERROR s
      else Some (state_entry new_state s))"

text \<open>
  \<open>power_on\<close> is the program at start: the struct and the statics of
  \<open>get_system_tick\<close> and platform.c are zero-initialised, nothing has been sent.

  \<open>bootloader_init\<close>: \<open>memset\<close> clears the struct (state 0 is \<open>STATE_IDLE\<close>, every
  slot of the ring is zero-filled and invalid), the two timeouts are set, and
  \<open>enter_state(STATE_IDLE)\<close> is called. The statics outside the struct survive.
\<close>

definition power_on :: bootloader where
  "power_on =
     \<lparr>state = STATE_IDLE, previous_state = STATE_IDLE,
      buffer = replicate BUFFER_SIZE
         \<lparr>p_data = replicate MAX_PACKET_SIZE 0, p_length = 0, p_valid = False\<rparr>,
      head = 0, tail = 0, count = 0,
      expected_seq = 0, bytes_received = 0, total_size = 0, expected_crc = 0,
      session_active = False,
      packets_processed = 0, packets_dropped = 0, error_count = 0,
      recovery_attempts = 0, app_launch_attempts = 0,
      state_entry_time = 0, last_activity_time = 0,
      session_timeout_ms = 0, app_validation_timeout_ms = 0,
      app_validation =
        \<lparr>v_valid = False, v_calculated_crc = 0, v_expected_crc = 0, v_size = 0\<rparr>,
      force_bootloader_mode = False,
      tick = 0, flash_busy = False, flash_writes = [], sent = []\<rparr>"

definition zeroed :: "bootloader \<Rightarrow> bootloader" where
  "zeroed s =
     power_on\<lparr>tick := tick s, flash_busy := flash_busy s, flash_writes := flash_writes s,
       sent := sent s\<rparr>"

definition bootloader_init :: "bootloader \<Rightarrow> bootloader option" where
  "bootloader_init s =
     (let s1 = zeroed s;
          s2 = s1\<lparr>session_timeout_ms := 30000\<rparr>;
          s3 = s2\<lparr>app_validation_timeout_ms := 5000\<rparr>;
          s4 = s3\<lparr>force_bootloader_mode := False\<rparr>
      in enter_state STATE_IDLE s4)"

definition handle_emergency_condition :: "bootloader \<Rightarrow> bootloader option" where
  "handle_emergency_condition s = enter_state STATE_EMERGENCY_RECOVERY s"

section \<open>Packet queue: enqueue\<close>

text \<open>
  \<open>memcpy(dst, src, n)\<close> on lists: the first \<open>n\<close> bytes of \<open>dst\<close> are replaced, the
  rest of \<open>dst\<close> keeps what an earlier packet left there.
\<close>

definition memcpy :: "u8 list \<Rightarrow> u8 list \<Rightarrow> nat \<Rightarrow> u8 list" where
  "memcpy dst src n = take n src @ drop n dst"

text \<open>
  \<open>bootloader_receive_packet\<close> has no bound on \<open>length\<close>: with more than
  \<open>MAX_PACKET_SIZE\<close> bytes, \<open>memcpy\<close> writes past the end of \<open>pkt->data\<close>, which C
  leaves undefined. The source then goes on as for any other packet: it stores
  \<open>pkt->length = length\<close>, marks the slot valid, advances the ring, reads the tick and
  returns true. The model returns that as the fault \<open>Slot_overrun n s'\<close>, where \<open>n\<close>
  is the number of bytes \<open>memcpy\<close> was told to copy and \<open>s'\<close> is the core as those
  statements leave it. The bytes past the array are kept with the slot (\<open>p_data\<close>
  then has more than 256 entries); what else they overwrite depends on the memory
  layout and is not modelled.
\<close>

datatype fault = Slot_overrun nat bootloader

definition bootloader_receive_packet ::
    "u8 list \<Rightarrow> bootloader \<Rightarrow> (fault + bool \<times> bootloader) option" where
  "bootloader_receive_packet bytes s =
     (if count s \<ge> BUFFER_SIZE then
        (let s1 = s\<lparr>packets_dropped := packets_dropped s + 1\<rparr>
         in if packets_dropped s1 > 10 \<and> state s1 \<noteq> STATE_EMERGENCY_RECOVERY
            then do { s2 \<leftarrow> handle_emergency_condition s1; Some (Inr (False, s2)) }
            else Some (Inr (False, s1)))
      else
        (let pkt = buffer s ! head s;
             pkt1 = pkt\<lparr>p_data := memcpy (p_data pkt) bytes (length bytes)\<rparr>;
             pkt2 = pkt1\<lparr>p_length := length bytes\<rparr>;
             pkt3 = pkt2\<lparr>p_valid := True\<rparr>;
             s1 = s\<lparr>buffer := (buffer s)[head s := pkt3]\<rparr>;
             s2 = s1\<lparr>head := (head s1 + 1) mod BUFFER_SIZE\<rparr>;
             s3 = s2\<lparr>count := count s2 + 1\<rparr>;
             (t, s4) = get_system_tick s3;
             s5 = s4\<lparr>last_activity_time := t\<rparr>
         in if length bytes > MAX_PACKET_SIZE
            then Some (Inl (Slot_overrun (length bytes) s5))
            else Some (Inr (True, s5))))"

section \<open>Packet handlers\<close>

text \<open>
  \<open>START_SESSION\<close> carries \<open>total_size\<close> in bytes 2..5 and \<open>expected_crc\<close> in bytes
  6..7, big-endian; the shifts and ors are taken on 32 bits. Both fields are stored
  before the size is checked.
\<close>

definition handle_idle_packet :: "packet_t \<Rightarrow> u8 \<Rightarrow> u8 \<Rightarrow> bootloader \<Rightarrow> bootloader option" where
  "handle_idle_packet pkt seq packet_type s =
     (if packet_type = PKT_START_SESSION then
        (if \<not> force_bootloader_mode s \<and> p_length pkt \<ge> 8 then
           (let d = p_data pkt;
                s1 = s\<lparr>total_size :=
                        push_bit 24 (ucast (d ! 2)) OR push_bit 16 (ucast (d ! 3)) OR
                        push_bit 8 (ucast (d ! 4)) OR ucast (d ! 5)\<rparr>;
                s2 = s1\<lparr>expected_crc := push_bit 8 (ucast (d ! 6)) OR ucast (d ! 7)\<rparr>
            in if total_size s2 > 0 \<and> total_size s2 \<le> 1024 * 1024 then
                 do {
                   s3 \<leftarrow> enter_state STATE_DFU_ACTIVE s2;
                   let s4 = s3\<lparr>session_active := True\<rparr>;
                   let s5 = s4\<lparr>expected_seq := 1\<rparr>;
                   let s6 = s5\<lparr>bytes_received := 0\<rparr>;
                   Some (send_ack_packet s6)
                 }
               else Some (send_nack_packet 0x05 s2))
         else if force_bootloader_mode s then Some (send_nack_packet 0x12 s)
         else Some (send_nack_packet 0x01 s))
      else if packet_type = PKT_JUMP_APP then
        (if \<not> force_bootloader_mode s then
           do { s1 \<leftarrow> enter_state STATE_DFU_VERIFY s; Some (send_ack_packet s1) }
         else Some (send_nack_packet 0x12 s))
      else Some (send_nack_packet 0x01 s))"

text \<open>
  \<open>DATA\<close>: \<open>seq\<close> is the byte \<open>data[0]\<close>, widened for the comparison with the 32-bit
  \<open>expected_seq\<close>. \<open>payload_len = pkt->length - 2\<close> is unsigned arithmetic; it is
  kept modulo \<open>2^32\<close>, which is all that reaches the 32-bit \<open>bytes_received\<close>, so a
  packet shorter than two bytes gives a wrapped length. The bytes handed to the
  flash driver are those of the slot from offset 2 on, as far as the slot reaches.
\<close>

definition handle_dfu_packet :: "packet_t \<Rightarrow> u8 \<Rightarrow> u8 \<Rightarrow> bootloader \<Rightarrow> bootloader option" where
  "handle_dfu_packet pkt seq packet_type s =
     (if packet_type = PKT_DATA then
        (if ucast seq = expected_seq s then
           (let payload_len = (of_nat (p_length pkt) - 2 :: u32);
                payload = take (unat payload_len) (drop 2 (p_data pkt));
                flash_addr = APPLICATION_START + bytes_received s;
                (accepted, s1) = start_flash_write flash_addr payload s
            in if accepted then
                 (let s2 = s1\<lparr>bytes_received := bytes_received s1 + payload_len\<rparr>;
                      s3 = s2\<lparr>expected_seq := expected_seq s2 + 1\<rparr>
                  in Some (send_ack_packet s3))
               else Some (send_nack_packet 0x03 s1))
         else
           (let s1 = send_nack_packet 0x02 s;
                s2 = s1\<lparr>error_count := error_count s1 + 1\<rparr>
            in if error_count s2 > 5 then handle_emergency_condition s2 else Some s2))
      else if packet_type = PKT_END_SESSION then
        (if bytes_received s = total_size s then
           do { s1 \<leftarrow> enter_state STATE_DFU_VERIFY s; Some (send_ack_packet s1) }
         else enter_state STATE_ERROR (send_nack_packet 0x08 s))
      else Some (send_nack_packet 0x04 s))"

text \<open>
  The body of the drain loop after the dequeue bookkeeping: the switch on the packet
  type (global handlers first), then the switch on the state.
\<close>

definition dispatch_packet :: "packet_t \<Rightarrow> u8 \<Rightarrow> u8 \<Rightarrow> bootloader \<Rightarrow> bootloader option" where
  "dispatch_packet pkt seq packet_type s =
     (if packet_type = PKT_PING then Some (send_ack_packet s)
      else if packet_type = PKT_GET_STATUS then Some (send_ack_packet s)
      else if packet_type = PKT_EMERGENCY_RESET then handle_emergency_condition s
      else if packet_type = PKT_ABORT then
        (if state s = STATE_DFU_ACTIVE then
           do { s1 \<leftarrow> enter_state STATE_IDLE s; Some (send_ack_packet s1) }
         else Some s)
      else
        (case state s of
           STATE_IDLE \<Rightarrow> handle_idle_packet pkt seq packet_type s
         | STATE_DFU_ACTIVE \<Rightarrow> handle_dfu_packet pkt seq packet_type s
         | STATE_EMERGENCY_RECOVERY \<Rightarrow>
             (if packet_type \<noteq> PKT_PING \<and> packet_type \<noteq> PKT_EMERGENCY_RESET
              then Some (send_nack_packet 0x10 s) else Some s)
         | _ \<Rightarrow> Some (send_nack_packet 0x11 s)))"

section \<open>Timeouts, validation and the cycle\<close>

definition handle_timeout_checks :: "bootloader \<Rightarrow> bootloader option" where
  "handle_timeout_checks s =
     (let (current_time, s0) = get_system_tick s
      in do {
           s1 \<leftarrow> (if session_active s0 \<and>
                     current_time - last_activity_time s0 > session_timeout_ms s0 * 1000
                  then enter_state STATE_ERROR s0 else Some s0);
           (case state s1 of
              STATE_DFU_VERIFY \<Rightarrow>
                (if current_time - state_entry_time s1 > app_validation_timeout_ms s1 * 1000
                 then enter_state STATE_ERROR s1 else Some s1)
            | STATE_ERROR \<Rightarrow>
                (if current_time - state_entry_time s1 > 5000000
                 then enter_state STATE_IDLE s1 else Some s1)
            | _ \<Rightarrow> Some s1)
         })"

text \<open>The calculated CRC is the constant \<open>0x1234\<close>; the flash is not read.\<close>

definition validate_application :: "bootloader \<Rightarrow> bool \<times> bootloader" where
  "validate_application s =
     (let v1 = (app_validation s)\<lparr>v_size := bytes_received s\<rparr>;
          v2 = v1\<lparr>v_calculated_crc := 0x1234\<rparr>;
          v3 = v2\<lparr>v_expected_crc := expected_crc s\<rparr>;
          v4 = v3\<lparr>v_valid := (v_calculated_crc v3 = v_expected_crc v3)\<rparr>
      in (v_valid v4, s\<lparr>app_validation := v4\<rparr>))"

text \<open>The first switch of \<open>bootloader_process_cycle\<close>: background work of the state.\<close>

definition background_processing :: "bootloader \<Rightarrow> bootloader option" where
  "background_processing s =
     (case state s of
        STATE_DFU_VERIFY \<Rightarrow>
          (let (ok, s1) = validate_application s
           in if ok then enter_state STATE_RUNNING_APP s1 else enter_state STATE_ERROR s1)
      | STATE_RUNNING_APP \<Rightarrow> enter_state STATE_IDLE s
      | STATE_EMERGENCY_RECOVERY \<Rightarrow>
          (let (t, s1) = get_system_tick s
           in if t - state_entry_time s1 > 10000000 then
                (let s2 = s1\<lparr>packets_dropped := 0\<rparr>;
                     s3 = s2\<lparr>error_count := 0\<rparr>
                 in enter_state STATE_IDLE s3)
              else Some s1)
      | _ \<Rightarrow> Some s)"

text \<open>
  One iteration of the drain loop, for a slot that is valid: advance \<open>tail\<close>, count
  the packet, dispatch it, clear the slot's valid flag.
\<close>

definition process_packet :: "bootloader \<Rightarrow> bootloader option" where
  "process_packet s =
     (let slot = tail s;
          pkt = buffer s ! slot;
          s1 = s\<lparr>tail := (tail s + 1) mod BUFFER_SIZE\<rparr>;
          s2 = s1\<lparr>count := count s1 - 1\<rparr>;
          s3 = s2\<lparr>packets_processed := packets_processed s2 + 1\<rparr>;
          seq = p_data pkt ! 0;
          packet_type = p_data pkt ! 1
      in do {
           s4 \<leftarrow> dispatch_packet pkt seq packet_type s3;
           Some (s4\<lparr>buffer := (buffer s4)[slot := (buffer s4 ! slot)\<lparr>p_valid := False\<rparr>]\<rparr>)
         })"

text \<open>
  The drain loop \<open>while (bootloader.count > 0)\<close>, with its \<open>break\<close> on a slot that
  is not valid.
\<close>

function process_packets :: "bootloader \<Rightarrow> bootloader option" where
  "process_packets s =
     (if count s > 0 then
        (if \<not> p_valid (buffer s ! tail s) then Some s
         else (case process_packet s of None \<Rightarrow> None | Some s' \<Rightarrow> process_packets s'))
      else Some s)"
  by pat_completeness auto

definition bootloader_process_cycle :: "bool \<Rightarrow> bootloader \<Rightarrow> bootloader option" where
  "bootloader_process_cycle elapsed s =
     do {
       s1 \<leftarrow> handle_timeout_checks s;
       let s2 = is_flash_operation_complete elapsed s1;
       s3 \<leftarrow> background_processing s2;
       process_packets s3
     }"

section \<open>Reachable states\<close>

text \<open>
  The states the core can be in between two calls of its own three operations, as
  long as every enqueue stays within its slot and nobody but the core reads the
  tick: after \<open>bootloader_init\<close> (called on whatever was there before), and from
  there after any call of \<open>bootloader_receive_packet\<close> that returns without an
  overrun or of \<open>bootloader_process_cycle\<close> that returns. Runs that overrun a slot or
  read the tick from outside are driven by \<open>push_and_process\<close> and \<open>tick_reads\<close>
  below.
\<close>

inductive reachable :: "bootloader \<Rightarrow> bool" where
  init: "bootloader_init s0 = Some s \<Longrightarrow> reachable s"
| receive: "reachable s \<Longrightarrow> bootloader_receive_packet bytes s = Some (Inr (accepted, s'))
     \<Longrightarrow> reachable s'"
| cycle: "reachable s \<Longrightarrow> bootloader_process_cycle elapsed s = Some s' \<Longrightarrow> reachable s'"

section \<open>Driving the API\<close>

text \<open>
  \<open>submit_and_process\<close> is what the tests do with each packet: hand it to
  \<open>bootloader_receive_packet\<close>, which must accept it, then run one cycle.
  \<open>cycles n\<close> runs \<open>n\<close> cycles in a row.
\<close>

definition submit_and_process :: "u8 list \<Rightarrow> bool \<Rightarrow> bootloader \<Rightarrow> bootloader option" where
  "submit_and_process bytes elapsed s =
     (case bootloader_receive_packet bytes s of
        Some (Inr (True, s1)) \<Rightarrow> bootloader_process_cycle elapsed s1
      | _ \<Rightarrow> None)"

fun cycles :: "nat \<Rightarrow> bool \<Rightarrow> bootloader \<Rightarrow> bootloader option" where
  "cycles 0 elapsed s = Some s"
| "cycles (Suc n) elapsed s =
     (case bootloader_process_cycle elapsed s of
        None \<Rightarrow> None
      | Some s' \<Rightarrow> cycles n elapsed s')"

text \<open>
  \<open>carried_on\<close> is the core after a call of \<open>bootloader_receive_packet\<close>, whatever the
  call returned and also when it has overrun its slot; \<open>push_and_process\<close> hands a
  packet of any length to the enqueue and then runs one cycle on that core. This is
  what the tests' 258-byte packets do.
\<close>

definition carried_on :: "(fault + bool \<times> bootloader) option \<Rightarrow> bootloader option" where
  "carried_on r =
     (case r of
        None \<Rightarrow> None
      | Some (Inl (Slot_overrun n s')) \<Rightarrow> Some s'
      | Some (Inr (accepted, s')) \<Rightarrow> Some s')"

definition push_and_process :: "u8 list \<Rightarrow> bool \<Rightarrow> bootloader \<Rightarrow> bootloader option" where
  "push_and_process bytes elapsed s =
     (case carried_on (bootloader_receive_packet bytes s) of
        None \<Rightarrow> None
      | Some s1 \<Rightarrow> bootloader_process_cycle elapsed s1)"

text \<open>
  \<open>get_system_tick\<close> is declared in \<open>bootloader.h\<close> with the main API, so code outside
  the core can call it, and every call advances the tick by 1 ms. \<open>tick_reads n\<close> is
  the core after \<open>n\<close> such calls.
\<close>

fun tick_reads :: "nat \<Rightarrow> bootloader \<Rightarrow> bootloader" where
  "tick_reads 0 s = s"
| "tick_reads (Suc n) s = tick_reads n (snd (get_system_tick s))"

text \<open>
  \<open>data_258 k\<close> is the 258-byte \<open>DATA\<close> packet of the tests with sequence number \<open>k\<close>:
  two header bytes and 256 payload bytes. \<open>feed_data n k\<close> sends \<open>n\<close> of them, numbered
  from \<open>k\<close> on, one cycle after each, with the flash driver reporting the previous
  write complete.
\<close>

definition data_258 :: "nat \<Rightarrow> u8 list" where
  "data_258 k = of_nat k # PKT_DATA # replicate 256 0xAA"

fun feed_data :: "nat \<Rightarrow> nat \<Rightarrow> bootloader \<Rightarrow> bootloader option" where
  "feed_data 0 k s = Some s"
| "feed_data (Suc n) k s =
     (case push_and_process (data_258 k) True s of
        None \<Rightarrow> None
      | Some s' \<Rightarrow> feed_data n (Suc k) s')"

section \<open>Invariants of the reachable states\<close>

text \<open>
  The ring is well formed when \<open>head\<close> is \<open>count\<close> slots after \<open>tail\<close>, those \<open>count\<close>
  slots are valid, and every slot holds 256 bytes and a length of at most 256.
\<close>

definition queue_ok :: "bootloader \<Rightarrow> bool" where
  "queue_ok s \<longleftrightarrow>
     length (buffer s) = BUFFER_SIZE \<and> count s \<le> BUFFER_SIZE \<and> tail s < BUFFER_SIZE \<and>
     head s = (tail s + count s) mod BUFFER_SIZE \<and>
     (\<forall>i < count s. p_valid (buffer s ! ((tail s + i) mod BUFFER_SIZE))) \<and>
     (\<forall>p \<in> set (buffer s). p_length p \<le> MAX_PACKET_SIZE \<and> length (p_data p) = MAX_PACKET_SIZE)"

text \<open>
  While a session is active the declared size is within 1..1 MiB, \<open>expected_seq\<close> is
  within 1..256, and the bytes received so far are bounded through the number of
  packets accepted. Each accepted \<open>DATA\<close> adds \<open>length - 2\<close> to \<open>bytes_received\<close>
  (modulo \<open>2^32\<close>) and 1 to \<open>expected_seq\<close>, so \<open>bytes_received + 2 * (expected_seq - 1)\<close>
  grows by the packet's length, which is at most 256.
\<close>

definition session_ok :: "bootloader \<Rightarrow> bool" where
  "session_ok s \<longleftrightarrow>
     (state s = STATE_DFU_ACTIVE \<longrightarrow>
        0 < total_size s \<and> total_size s \<le> 1048576 \<and>
        1 \<le> unat (expected_seq s) \<and> unat (expected_seq s) \<le> 256 \<and>
        unat (bytes_received s + 2 * (expected_seq s - 1))
          \<le> 256 * (unat (expected_seq s) - 1))"

text \<open>
  \<open>elapsed_us now since\<close> is the microsecond difference as the code computes it, on
  32 bits. What holds between two API calls is \<open>timing_ok\<close>; what holds while the
  queue is drained is \<open>draining_ok\<close>, where every packet still queued may cost one
  more tick. In both, a session that is still marked active outside
  \<open>STATE_DFU_ACTIVE\<close> has seen its last packet shortly before the state was entered.
\<close>

definition elapsed_us :: "u32 \<Rightarrow> u32 \<Rightarrow> nat" where
  "elapsed_us now since = unat (now - since)"

definition timing_common :: "bootloader \<Rightarrow> bool" where
  "timing_common s \<longleftrightarrow>
     session_timeout_ms s = 30000 \<and> app_validation_timeout_ms s = 5000 \<and>
     count s \<le> 16 \<and>
     (session_active s \<longrightarrow> state s \<noteq> STATE_IDLE) \<and>
     (state s = STATE_EMERGENCY_RECOVERY \<longrightarrow> force_bootloader_mode s) \<and>
     (session_active s \<and> state s = STATE_DFU_VERIFY \<longrightarrow>
        elapsed_us (tick s) (last_activity_time s) \<le> 30000) \<and>
     (session_active s \<and> state s = STATE_RUNNING_APP \<longrightarrow>
        elapsed_us (tick s) (last_activity_time s) \<le> 40000) \<and>
     (session_active s \<and> (state s = STATE_ERROR \<or> state s = STATE_EMERGENCY_RECOVERY) \<longrightarrow>
        elapsed_us (tick s) (last_activity_time s)
          \<le> elapsed_us (tick s) (state_entry_time s) + 40000)"

definition timing_ok :: "bootloader \<Rightarrow> bool" where
  "timing_ok s \<longleftrightarrow>
     timing_common s \<and>
     (0 < count s \<longrightarrow>
        elapsed_us (tick s) (last_activity_time s)
          \<le> (if state s = STATE_EMERGENCY_RECOVERY then 1000 else 0)) \<and>
     (state s = STATE_ERROR \<or> state s = STATE_EMERGENCY_RECOVERY \<longrightarrow>
        elapsed_us (tick s) (state_entry_time s) \<le> 10020000 + 1000 * count s)"

definition draining_ok :: "bootloader \<Rightarrow> bool" where
  "draining_ok s \<longleftrightarrow>
     timing_common s \<and>
     (0 < count s \<longrightarrow> elapsed_us (tick s) (last_activity_time s) + 1000 * count s \<le> 30000) \<and>
     (state s = STATE_ERROR \<or> state s = STATE_EMERGENCY_RECOVERY \<longrightarrow>
        elapsed_us (tick s) (state_entry_time s) + 1000 * count s \<le> 10020000)"

text \<open>
  After the dequeue bookkeeping one slot of the budget is free, which pays for the
  single tick a dispatch can cost.
\<close>

definition budget_ok :: "bootloader \<Rightarrow> bool" where
  "budget_ok s \<longleftrightarrow>
     timing_common s \<and> count s < 16 \<and>
     elapsed_us (tick s) (last_activity_time s) + 1000 * count s + 1000 \<le> 30000 \<and>
     (state s = STATE_ERROR \<or> state s = STATE_EMERGENCY_RECOVERY \<longrightarrow>
        elapsed_us (tick s) (state_entry_time s) + 1000 * count s + 1000 \<le> 10020000)"

text \<open>
  \<open>fed k\<close> describes a session for 65280 bytes between two packets, after \<open>k\<close>
  packets \<open>data_258\<close> have been accepted: the queue is empty, \<open>256 * k\<close> bytes are
  counted, packet \<open>k + 1\<close> is expected, and the \<open>START_SESSION\<close> and each of the \<open>k\<close>
  packets have been answered with ACK.
\<close>

definition fed :: "nat \<Rightarrow> bootloader \<Rightarrow> bool" where
  "fed k s \<longleftrightarrow>
     state s = STATE_DFU_ACTIVE \<and> session_active s \<and> session_timeout_ms s = 30000 \<and>
     count s = 0 \<and> head s = tail s \<and> tail s < 16 \<and> length (buffer s) = 16 \<and>
     expected_seq s = of_nat (Suc k) \<and> bytes_received s = of_nat (256 * k) \<and>
     total_size s = 65280 \<and> sent s = replicate (Suc k) ACK"

section \<open>Concrete states and a reference CRC\<close>

text \<open>
  Two concrete states: the core right after \<open>bootloader_init\<close> at program start, and
  the core after the tests' emergency packet \<open>{0x99, 0x08}\<close> has then been submitted
  and processed.
\<close>

definition after_init :: bootloader where
  "after_init = the (bootloader_init power_on)"

definition in_recovery :: bootloader where
  "in_recovery = the (submit_and_process [0x99, 0x08] False after_init)"

text \<open>
  After \<open>bootloader_init\<close> the core sits in \<open>STATE_ERROR\<close>; an idle cycle there only
  advances the tick by 1 ms, and the cycle whose tick is more than 5 s after the
  entry moves on to IDLE. \<open>idle_ready\<close> is the core after those 5001 cycles, and
  \<open>in_session\<close> the core after a \<open>START_SESSION\<close> for 65536 bytes (CRC 0x1234) has
  then been submitted and processed.
\<close>

definition idle_ready :: bootloader where
  "idle_ready = the (cycles 5001 False after_init)"

definition in_session :: bootloader where
  "in_session =
     the (submit_and_process [0x00, 0x01, 0x00, 0x01, 0x00, 0x00, 0x12, 0x34] False idle_ready)"

text \<open>
  \<open>error_with_session\<close> is the core after an \<open>END_SESSION\<close> has been submitted and
  processed in \<open>in_session\<close>, where nothing of the 65536 bytes has arrived.
\<close>

definition error_with_session :: bootloader where
  "error_with_session = the (submit_and_process [0x01, 0x03] False in_session)"

text \<open>
  \<open>long_session\<close> is a whole session from \<open>idle_ready\<close>: a \<open>START_SESSION\<close> for 65280
  bytes (CRC 0x1234), the 255 packets \<open>data_258 1\<close> .. \<open>data_258 255\<close>, and an
  \<open>END_SESSION\<close>.
\<close>

definition long_session :: "bootloader option" where
  "long_session =
     do {
       s1 \<leftarrow> push_and_process [0x00, 0x01, 0x00, 0x00, 0xFF, 0x00, 0x12, 0x34] False idle_ready;
       s2 \<leftarrow> feed_data 255 1 s1;
       push_and_process [0x00, 0x03] True s2
     }"


text \<open>
  For comparison only: the source has no CRC routine. \<open>crc16_ccitt\<close> is the
  CRC-16/CCITT that the spec's design notes name as the default choice (polynomial
  0x1021, initial value 0xFFFF, most significant bit first), and \<open>session_image\<close> is
  what the flash driver was given, in order.
\<close>

definition crc16_shift :: "16 word \<Rightarrow> 16 word" where
  "crc16_shift c = (if c AND 0x8000 \<noteq> 0 then push_bit 1 c XOR 0x1021 else push_bit 1 c)"

definition crc16_byte :: "16 word \<Rightarrow> u8 \<Rightarrow> 16 word" where
  "crc16_byte c b = (crc16_shift ^^ 8) (c XOR push_bit 8 (ucast b))"

definition crc16_ccitt :: "u8 list \<Rightarrow> 16 word" where
  "crc16_ccitt bytes = foldl crc16_byte 0xFFFF bytes"

definition session_image :: "bootloader \<Rightarrow> u8 list" where
  "session_image s = concat (map snd (flash_writes s))"

text \<open>
  \<open>verify_pending b\<close>: from \<open>idle_ready\<close>, a complete one-byte session. The packets
  are \<open>START_SESSION\<close> (size 1, CRC 0x1234), \<open>DATA\<close> with sequence 1 and the payload
  byte \<open>b\<close>, and \<open>END_SESSION\<close>, each submitted and processed in turn.
\<close>

definition verify_pending :: "u8 \<Rightarrow> bootloader" where
  "verify_pending b =
     the (submit_and_process [0x02, 0x03] False
       (the (submit_and_process [0x01, 0x02, b] False
         (the (submit_and_process [0x00, 0x01, 0x00, 0x00, 0x00, 0x01, 0x12, 0x34] False
            idle_ready)))))"

section \<open>Closed form of the state entry\<close>

lemma enter_state_valid:
  "validate_state_transition (state s) n \<Longrightarrow> enter_state n s = Some (state_entry n s)"
  by (subst enter_state.simps) simp

lemma enter_state_fallback:
  assumes "\<not> validate_state_transition (state s) n" and "state s \<noteq> STATE_ERROR"
  shows "enter_state n s = Some (state_entry STATE_ERROR s)"
proof -
  from assms(2) have v: "validate_state_transition (state s) STATE_ERROR"
    by (cases "state s") simp_all
  have "enter_state n s = enter_state STATE_ERROR s"
    using assms(1) by (subst enter_state.simps) simp
  with v show ?thesis by (simp add: enter_state_valid)
qed

lemma enter_state_stuck:
  assumes "enter_state n s = Some r"
  shows "validate_state_transition (state s) n \<or> state s \<noteq> STATE_ERROR"
proof (rule enter_state.raw_induct
    [where P = "\<lambda>n (s::bootloader) r.
        validate_state_transition (state s) n \<or> state s \<noteq> STATE_ERROR",
      OF _ assms])
  fix f :: "bootloader_state_t \<Rightarrow> bootloader \<Rightarrow> bootloader option"
  fix n' :: bootloader_state_t and s' r' :: bootloader
  assume IH: "\<And>a b y. f a b = Some y \<Longrightarrow>
    validate_state_transition (state b) a \<or> state b \<noteq> STATE_ERROR"
  assume eq: "(if \<not> validate_state_transition (state s') n'
      then f STATE_ERROR s' else Some (state_entry n' s')) = Some r'"
  show "validate_state_transition (state s') n' \<or> state s' \<noteq> STATE_ERROR"
  proof (cases "validate_state_transition (state s') n'")
    case True
    then show ?thesis by simp
  next
    case False
    with eq have "f STATE_ERROR s' = Some r'" by simp
    from IH [OF this] show ?thesis by auto
  qed
qed

lemma enter_state_diverges:
  assumes "state s = STATE_ERROR" and "\<not> validate_state_transition STATE_ERROR n"
  shows "enter_state n s = None"
proof (cases "enter_state n s")
  case None
  then show ?thesis .
next
  case (Some r)
  from enter_state_stuck [OF Some] assms show ?thesis by simp
qed

lemma enter_state_cases:
  assumes "enter_state n s = Some r"
  shows "r = state_entry n s \<or> r = state_entry STATE_ERROR s"
proof (cases "validate_state_transition (state s) n")
  case True
  with assms show ?thesis by (simp add: enter_state_valid)
next
  case False
  with enter_state_stuck [OF assms] have "state s \<noteq> STATE_ERROR" by simp
  from enter_state_fallback [OF False this] assms show ?thesis by simp
qed

lemma enter_state_eq:
  "enter_state n s =
     (if validate_state_transition (state s) n then Some (state_entry n s)
      else if state s \<noteq> STATE_ERROR then Some (state_entry STATE_ERROR s)
      else None)"
  by (auto simp: enter_state_valid enter_state_fallback intro: enter_state_diverges)

section \<open>The queue fields are touched by enqueue and dequeue only\<close>

lemma state_entry_queue:
  "count (state_entry n s) = count s"
  "head (state_entry n s) = head s"
  "tail (state_entry n s) = tail s"
  "buffer (state_entry n s) = buffer s"
  by (cases n; simp add: state_entry_def get_system_tick_def)+

lemma enter_state_queue:
  assumes "enter_state n s = Some r"
  shows "count r = count s \<and> head r = head s \<and> tail r = tail s \<and> buffer r = buffer s"
  using enter_state_cases [OF assms] by (auto simp: state_entry_queue)

lemma dispatch_packet_queue:
  assumes "dispatch_packet pkt q ty s = Some r"
  shows "count r = count s \<and> head r = head s \<and> tail r = tail s \<and> buffer r = buffer s"
  using assms
  by (auto simp: dispatch_packet_def handle_idle_packet_def handle_dfu_packet_def
      handle_emergency_condition_def send_ack_packet_def send_nack_packet_def
      start_flash_write_def Let_def
      split: if_splits bootloader_state_t.splits bind_splits prod.splits
      dest!: enter_state_queue)

lemma process_packet_count:
  assumes "process_packet s = Some r"
  shows "count r = count s - 1"
  using assms
  by (auto simp: process_packet_def Let_def split: bind_splits dest!: dispatch_packet_queue)

termination process_packets
  by (relation "measure count") (auto dest: process_packet_count)

declare process_packets.simps [simp del]

section \<open>Initialisation\<close>

text \<open>
  C1. The spec has \<open>bootloader_init\<close> end in IDLE with every counter at zero. The
  transition table has no entry IDLE \<rightarrow> IDLE, so \<open>enter_state(STATE_IDLE)\<close> on the
  cleared struct falls back to \<open>enter_state(STATE_ERROR)\<close>: whatever the state before
  the call, \<open>bootloader_init\<close> returns in \<open>STATE_ERROR\<close> with \<open>error_count = 1\<close>. The
  timeouts hold their defaults and \<open>force_bootloader_mode\<close> is false.
\<close>

theorem bootloader_init_enters_error:
  "\<exists>r. bootloader_init s = Some r \<and> state r = STATE_ERROR \<and> error_count r = 1 \<and>
       previous_state r = STATE_IDLE \<and> \<not> force_bootloader_mode r \<and>
       session_timeout_ms r = 30000 \<and> app_validation_timeout_ms r = 5000 \<and>
       packets_processed r = 0 \<and> packets_dropped r = 0 \<and>
       recovery_attempts r = 0 \<and> app_launch_attempts r = 0"
proof -
  let ?s4 = "(zeroed s)\<lparr>session_timeout_ms := 30000, app_validation_timeout_ms := 5000,
      force_bootloader_mode := False\<rparr>"
  have st: "state ?s4 = STATE_IDLE" by (simp add: zeroed_def power_on_def)
  have "enter_state STATE_IDLE ?s4 = Some (state_entry STATE_ERROR ?s4)"
    by (rule enter_state_fallback) (simp_all add: st)
  then have "bootloader_init s = Some (state_entry STATE_ERROR ?s4)"
    by (simp add: bootloader_init_def Let_def)
  then show ?thesis
    by (simp add: state_entry_def get_system_tick_def zeroed_def power_on_def)
qed

section \<open>The ring buffer\<close>

lemma enter_state_queue_ok: "queue_ok s \<Longrightarrow> enter_state n s = Some r \<Longrightarrow> queue_ok r"
  using enter_state_queue [of n s r] by (simp add: queue_ok_def)

lemma receive_dropped_queue:
  assumes "count s \<ge> BUFFER_SIZE" and "bootloader_receive_packet bytes s = Some (Inr (a, s'))"
  shows "buffer s' = buffer s \<and> head s' = head s \<and> tail s' = tail s \<and> count s' = count s"
  using assms
  by (auto simp: bootloader_receive_packet_def Let_def handle_emergency_condition_def
      split: if_splits bind_splits dest!: enter_state_queue)

lemma ring_distinct:
  "i < j \<Longrightarrow> j < 16 \<Longrightarrow> (t + i) mod 16 \<noteq> (t + j) mod (16::nat)"
proof
  assume a: "i < j" "j < 16" "(t + i) mod 16 = (t + j) mod 16"
  from a(1) have "t + i \<le> t + j" by simp
  from mod_eq_dvd_iff_nat [OF this, of 16] a(3) have "16 dvd (t + j) - (t + i)" by simp
  then have "16 dvd j - i" by simp
  moreover from a have "0 < j - i" "j - i < 16" by simp_all
  ultimately show False using nat_dvd_not_less by blast
qed

lemma ring_advance:
  assumes "0 < c"
  shows "((t + 1) mod 16 + (c - 1)) mod 16 = (t + c) mod (16::nat)"
proof -
  have "((t + 1) mod 16 + (c - 1)) mod 16 = (t + 1 + (c - 1)) mod 16"
    by (rule mod_add_left_eq)
  also from assms have "t + 1 + (c - 1) = t + c" by simp
  finally show ?thesis .
qed

lemma queue_ok_init: "bootloader_init s0 = Some s \<Longrightarrow> queue_ok s"
  by (auto simp: bootloader_init_def Let_def enter_state_eq queue_ok_def state_entry_queue
      zeroed_def power_on_def BUFFER_SIZE_def MAX_PACKET_SIZE_def split: if_splits)

lemma queue_ok_receive:
  assumes "queue_ok s" and "bootloader_receive_packet bytes s = Some (Inr (a, s'))"
  shows "queue_ok s'"
proof (cases "count s \<ge> BUFFER_SIZE")
  case True
  from receive_dropped_queue [OF True assms(2)] assms(1) show ?thesis
    by (simp add: queue_ok_def)
next
  case False
  let ?n = "length bytes"
  let ?pkt = "(buffer s ! head s)\<lparr>p_data := memcpy (p_data (buffer s ! head s)) bytes ?n,
      p_length := ?n, p_valid := True\<rparr>"
  from False assms(2) have len: "?n \<le> MAX_PACKET_SIZE"
    by (auto simp: bootloader_receive_packet_def get_system_tick_def Let_def split: if_splits)
  from False assms(2) len have s': "s' = s\<lparr>buffer := (buffer s)[head s := ?pkt],
      head := (head s + 1) mod BUFFER_SIZE, count := count s + 1, tick := tick s + 1000,
      last_activity_time := tick s + 1000\<rparr>"
    by (auto simp: bootloader_receive_packet_def Let_def get_system_tick_def)
  from assms(1) have q: "length (buffer s) = 16" "count s \<le> 16" "tail s < 16"
    "head s = (tail s + count s) mod 16"
    "\<And>i. i < count s \<Longrightarrow> p_valid (buffer s ! ((tail s + i) mod 16))"
    "\<And>p. p \<in> set (buffer s) \<Longrightarrow> p_length p \<le> 256 \<and> length (p_data p) = 256"
    by (simp_all add: queue_ok_def BUFFER_SIZE_def MAX_PACKET_SIZE_def)
  from False have c: "count s < 16" by (simp add: BUFFER_SIZE_def)
  have hd: "head s < 16" using q(4) by simp
  have old: "length (p_data (buffer s ! head s)) = 256"
    using q(6) [of "buffer s ! head s"] hd q(1) by simp
  have pk: "p_length ?pkt \<le> 256 \<and> length (p_data ?pkt) = 256"
    using len old by (simp add: memcpy_def MAX_PACKET_SIZE_def)
  have v: "p_valid ((buffer s)[head s := ?pkt] ! ((tail s + i) mod 16))" if "i < count s + 1" for i
  proof (cases "i = count s")
    case True
    with q(4) hd q(1) show ?thesis by simp
  next
    case False
    with that have i: "i < count s" by simp
    with c have "(tail s + i) mod 16 \<noteq> (tail s + count s) mod 16"
      by (intro ring_distinct) simp_all
    with q(4) q(5) [OF i] show ?thesis by simp
  qed
  have m: "(head s + 1) mod 16 = (tail s + (count s + 1)) mod 16"
    using q(4) by (simp add: mod_Suc_eq)
  have ps: "p_length p \<le> 256 \<and> length (p_data p) = 256" if "p \<in> set ((buffer s)[head s := ?pkt])" for p
    using that pk q(6) set_update_subset_insert [of "buffer s" "head s" ?pkt] by blast
  show ?thesis
    unfolding queue_ok_def s' using q(1,3) c v m ps
    by (simp add: BUFFER_SIZE_def MAX_PACKET_SIZE_def)
qed

lemma queue_ok_process_packet:
  assumes "queue_ok s" and "0 < count s" and "process_packet s = Some s'"
  shows "queue_ok s'"
proof -
  from assms(3) obtain r where
    d: "dispatch_packet (buffer s ! tail s) (p_data (buffer s ! tail s) ! 0)
          (p_data (buffer s ! tail s) ! 1)
          (s\<lparr>tail := (tail s + 1) mod BUFFER_SIZE, count := count s - 1,
             packets_processed := packets_processed s + 1\<rparr>) = Some r"
    and s': "s' = r\<lparr>buffer := (buffer r)[tail s := (buffer r ! tail s)\<lparr>p_valid := False\<rparr>]\<rparr>"
    by (auto simp: process_packet_def Let_def split: bind_splits)
  from dispatch_packet_queue [OF d] have r: "count r = count s - 1"
    "tail r = (tail s + 1) mod 16" "head r = head s" "buffer r = buffer s"
    by (simp_all add: BUFFER_SIZE_def)
  from assms(1) have q: "length (buffer s) = 16" "count s \<le> 16" "tail s < 16"
    "head s = (tail s + count s) mod 16"
    "\<And>i. i < count s \<Longrightarrow> p_valid (buffer s ! ((tail s + i) mod 16))"
    "\<And>p. p \<in> set (buffer s) \<Longrightarrow> p_length p \<le> 256 \<and> length (p_data p) = 256"
    by (simp_all add: queue_ok_def BUFFER_SIZE_def MAX_PACKET_SIZE_def)
  let ?b = "(buffer s)[tail s := (buffer s ! tail s)\<lparr>p_valid := False\<rparr>]"
  have v: "p_valid (?b ! (((tail s + 1) mod 16 + i) mod 16))" if "i < count s - 1" for i
  proof -
    from that have i: "i + 1 < count s" by simp
    with q(2) have "(tail s + 0) mod 16 \<noteq> (tail s + (i + 1)) mod 16"
      by (intro ring_distinct) simp_all
    moreover have "((tail s + 1) mod 16 + i) mod 16 = (tail s + (i + 1)) mod 16"
      using ring_advance [of "i + 1" "tail s"] by simp
    ultimately show ?thesis using q(5) [OF i] q(3) by simp
  qed
  from q(4) ring_advance [OF assms(2), of "tail s"]
  have m: "head s = ((tail s + 1) mod 16 + (count s - 1)) mod 16" by simp
  have ps: "p_length p \<le> 256 \<and> length (p_data p) = 256" if "p \<in> set ?b" for p
  proof -
    from q(6) [of "buffer s ! tail s"] q(1,3)
    have "p_length ((buffer s ! tail s)\<lparr>p_valid := False\<rparr>) \<le> 256 \<and>
      length (p_data ((buffer s ! tail s)\<lparr>p_valid := False\<rparr>)) = 256" by simp
    with that q(6) set_update_subset_insert [of "buffer s" "tail s"] show ?thesis by blast
  qed
  show ?thesis
    unfolding queue_ok_def s' using r q(1,2,3) v m ps
    by (simp add: BUFFER_SIZE_def MAX_PACKET_SIZE_def)
qed

section \<open>The drain loop and the cycle, phase by phase\<close>

lemma dispatch_packet_total: "\<exists>r. dispatch_packet pkt q ty s = Some r"
  by (cases "state s")
    (simp_all add: dispatch_packet_def handle_idle_packet_def handle_dfu_packet_def
      handle_emergency_condition_def start_flash_write_def enter_state_eq Let_def
      send_ack_packet_def send_nack_packet_def)

lemma process_packet_total: "\<exists>r. process_packet s = Some r"
proof -
  obtain r where "dispatch_packet (buffer s ! tail s) (p_data (buffer s ! tail s) ! 0)
          (p_data (buffer s ! tail s) ! 1)
          (s\<lparr>tail := (tail s + 1) mod BUFFER_SIZE, count := count s - 1,
             packets_processed := packets_processed s + 1\<rparr>) = Some r"
    using dispatch_packet_total by blast
  then show ?thesis by (simp add: process_packet_def Let_def)
qed

lemma process_packets_preserves:
  assumes step: "\<And>s s1. P s \<Longrightarrow> 0 < count s \<Longrightarrow> p_valid (buffer s ! tail s) \<Longrightarrow>
      process_packet s = Some s1 \<Longrightarrow> P s1"
    and "P s" and "process_packets s = Some s'"
  shows "P s'"
  using assms(2,3)
proof (induction s rule: process_packets.induct)
  case (1 s)
  show ?case
  proof (cases "0 < count s \<and> p_valid (buffer s ! tail s)")
    case False
    with "1.prems" show ?thesis by (auto simp: process_packets.simps [of s] split: if_splits)
  next
    case True
    then obtain s1 where s1: "process_packet s = Some s1"
      using process_packet_total by blast
    with True "1.prems"(2) have rest: "process_packets s1 = Some s'"
      by (simp add: process_packets.simps [of s])
    from step [OF "1.prems"(1) _ _ s1] True have "P s1" by simp
    from "1.IH" [OF _ _ s1 this rest] True show ?thesis by simp
  qed
qed

lemma process_packets_total: "\<exists>s'. process_packets s = Some s'"
proof (induction s rule: process_packets.induct)
  case (1 s)
  show ?case
  proof (cases "0 < count s \<and> p_valid (buffer s ! tail s)")
    case False
    then show ?thesis by (auto simp: process_packets.simps [of s])
  next
    case True
    then obtain s1 where s1: "process_packet s = Some s1"
      using process_packet_total by blast
    from "1.IH" [OF _ _ s1] True obtain s' where "process_packets s1 = Some s'" by auto
    with True s1 show ?thesis by (simp add: process_packets.simps [of s])
  qed
qed

lemma process_packets_queue_ok:
  assumes "queue_ok s" and "process_packets s = Some s'"
  shows "queue_ok s'"
  using queue_ok_process_packet assms
  by (rule process_packets_preserves [where P = queue_ok])

lemma process_packets_drains:
  assumes "queue_ok s" and "process_packets s = Some s'"
  shows "count s' = 0"
  using assms
proof (induction s rule: process_packets.induct)
  case (1 s)
  show ?case
  proof (cases "0 < count s")
    case False
    with "1.prems" show ?thesis by (simp add: process_packets.simps [of s])
  next
    case True
    with "1.prems"(1) have v: "p_valid (buffer s ! tail s)"
      by (auto simp: queue_ok_def BUFFER_SIZE_def dest!: spec [of _ 0])
    obtain s1 where s1: "process_packet s = Some s1"
      using process_packet_total by blast
    with True v "1.prems"(2) have rest: "process_packets s1 = Some s'"
      by (simp add: process_packets.simps [of s])
    from queue_ok_process_packet [OF "1.prems"(1) True s1] have "queue_ok s1" .
    from "1.IH" [OF True _ s1 this rest] v show ?thesis by simp
  qed
qed

lemma handle_timeout_checks_queue:
  assumes "handle_timeout_checks s = Some r"
  shows "count r = count s \<and> head r = head s \<and> tail r = tail s \<and> buffer r = buffer s"
  using assms
  by (auto simp: handle_timeout_checks_def get_system_tick_def
      split: bind_splits if_splits bootloader_state_t.splits dest!: enter_state_queue)

lemma background_processing_queue:
  assumes "background_processing s = Some r"
  shows "count r = count s \<and> head r = head s \<and> tail r = tail s \<and> buffer r = buffer s"
  using assms
  by (auto simp: background_processing_def get_system_tick_def validate_application_def Let_def
      split: if_splits bootloader_state_t.splits dest!: enter_state_queue)

lemma process_cycle_phases:
  "bootloader_process_cycle e s = Some s' \<longleftrightarrow>
     (\<exists>s1 s3. handle_timeout_checks s = Some s1 \<and>
        background_processing (is_flash_operation_complete e s1) = Some s3 \<and>
        process_packets s3 = Some s')"
  by (simp add: bootloader_process_cycle_def Let_def bind_eq_Some_conv)

lemma flash_poll_queue:
  "count (is_flash_operation_complete e s) = count s"
  "head (is_flash_operation_complete e s) = head s"
  "tail (is_flash_operation_complete e s) = tail s"
  "buffer (is_flash_operation_complete e s) = buffer s"
  by (simp_all add: is_flash_operation_complete_def)

lemma queue_ok_cycle:
  assumes "queue_ok s" and "bootloader_process_cycle e s = Some s'"
  shows "queue_ok s' \<and> count s' = 0"
proof -
  from assms(2) obtain s1 s3 where h: "handle_timeout_checks s = Some s1"
    and b: "background_processing (is_flash_operation_complete e s1) = Some s3"
    and p: "process_packets s3 = Some s'"
    unfolding process_cycle_phases by blast
  from handle_timeout_checks_queue [OF h] background_processing_queue [OF b]
  have "count s3 = count s" "head s3 = head s" "tail s3 = tail s" "buffer s3 = buffer s"
    by (simp_all add: flash_poll_queue)
  with assms(1) have q3: "queue_ok s3" by (simp add: queue_ok_def)
  from process_packets_queue_ok [OF q3 p] process_packets_drains [OF q3 p]
  show ?thesis by simp
qed

lemma reachable_queue_ok: "reachable s \<Longrightarrow> queue_ok s"
  by (induction rule: reachable.induct)
    (auto intro: queue_ok_init queue_ok_receive dest: queue_ok_cycle)

section \<open>Session progress\<close>

lemma unat_plus_le: "unat (x + y :: u32) \<le> unat x + unat y"
  by (simp add: unat_word_ariths)

lemma unat_ucast_u8: "unat (ucast (q :: u8) :: u32) = unat q"
proof -
  have "unat q < 2 ^ LENGTH(8)" by (rule unsigned_less)
  then have "unat q < 2 ^ 32" by simp
  then show ?thesis by (simp add: unsigned_ucast_eq take_bit_nat_eq_self)
qed

lemma data_accept_bound:
  fixes q :: u8 and eseq b e' b' :: u32
  assumes m: "ucast q = eseq"
    and w: "unat (b + 2 * (eseq - 1)) \<le> 256 * (unat eseq - 1)"
    and e: "1 \<le> unat eseq" and l: "len \<le> 256"
    and e': "e' = eseq + 1" and b': "b' = b + (of_nat len - 2)"
  shows "1 \<le> unat e' \<and> unat e' \<le> 256 \<and> unat (b' + 2 * (e' - 1)) \<le> 256 * (unat e' - 1)"
proof -
  have "unat q < 2 ^ LENGTH(8)" by (rule unsigned_less)
  moreover from m have "unat eseq = unat q" by (auto simp: unat_ucast_u8)
  ultimately have lt: "unat eseq < 256" by simp
  then have "unat eseq + unat (1 :: u32) < 2 ^ LENGTH(32)" by simp
  then have s: "unat e' = unat eseq + 1"
    using unat_add_lem [of eseq 1] e' by simp
  have r: "b' + 2 * (e' - 1) = (b + 2 * (eseq - 1)) + of_nat len"
    unfolding e' b' by (simp add: algebra_simps)
  have "unat ((b + 2 * (eseq - 1)) + (of_nat len :: u32))
      \<le> unat (b + 2 * (eseq - 1)) + unat (of_nat len :: u32)"
    by (rule unat_plus_le)
  also have "unat (of_nat len :: u32) \<le> len" by (simp add: unat_of_nat)
  finally have "unat (b' + 2 * (e' - 1)) \<le> 256 * (unat eseq - 1) + 256"
    using w l unfolding r by simp
  with s lt e show ?thesis by simp
qed

lemma state_entry_state: "state (state_entry n s) = n"
  by (cases n; simp add: state_entry_def get_system_tick_def)

lemma enter_state_not_active:
  assumes "enter_state n s = Some r" and "n \<noteq> STATE_DFU_ACTIVE"
  shows "state r \<noteq> STATE_DFU_ACTIVE"
  using enter_state_cases [OF assms(1)] assms(2) by (auto simp: state_entry_state)

lemma session_ok_leave: "state r \<noteq> STATE_DFU_ACTIVE \<Longrightarrow> session_ok r"
  by (simp add: session_ok_def)

lemma session_ok_same:
  assumes "session_ok s" and "state r \<noteq> STATE_DFU_ACTIVE \<or>
    (state r = state s \<and> total_size r = total_size s \<and> expected_seq r = expected_seq s \<and>
     bytes_received r = bytes_received s)"
  shows "session_ok r"
  using assms unfolding session_ok_def by auto

lemma handle_dfu_packet_session_ok:
  assumes "session_ok s" and "state s = STATE_DFU_ACTIVE" and "p_length pkt \<le> 256"
    and "handle_dfu_packet pkt q ty s = Some r"
  shows "session_ok r"
proof (cases "ty = PKT_DATA \<and> ucast q = expected_seq s \<and> \<not> flash_busy s")
  case True
  from assms(1,2) have i: "0 < total_size s" "total_size s \<le> 1048576"
    "1 \<le> unat (expected_seq s)"
    "unat (bytes_received s + 2 * (expected_seq s - 1)) \<le> 256 * (unat (expected_seq s) - 1)"
    by (simp_all add: session_ok_def)
  from True have m: "ucast q = expected_seq s" by simp
  from True assms(4) have r: "state r = state s" "total_size r = total_size s"
    "expected_seq r = expected_seq s + 1"
    "bytes_received r = bytes_received s + (of_nat (p_length pkt) - 2)"
    by (auto simp: handle_dfu_packet_def start_flash_write_def send_ack_packet_def Let_def)
  from data_accept_bound [OF m i(4) i(3) assms(3) r(3) r(4)]
  have "1 \<le> unat (expected_seq r) \<and> unat (expected_seq r) \<le> 256 \<and>
    unat (bytes_received r + 2 * (expected_seq r - 1)) \<le> 256 * (unat (expected_seq r) - 1)" .
  with i(1,2) r(2) show ?thesis unfolding session_ok_def by simp
next
  case False
  with assms(2,4) have "state r \<noteq> STATE_DFU_ACTIVE \<or>
    (state r = state s \<and> total_size r = total_size s \<and> expected_seq r = expected_seq s \<and>
     bytes_received r = bytes_received s)"
    by (auto simp: handle_dfu_packet_def start_flash_write_def send_ack_packet_def
        send_nack_packet_def handle_emergency_condition_def Let_def enter_state_eq
        state_entry_state split: if_splits)
  with assms(1) show ?thesis by (rule session_ok_same)
qed

lemma handle_idle_packet_session_ok:
  assumes "state s = STATE_IDLE" and "handle_idle_packet pkt q ty s = Some r"
  shows "session_ok r"
  using assms
  by (auto simp: handle_idle_packet_def send_ack_packet_def send_nack_packet_def Let_def
      enter_state_eq state_entry_state session_ok_def state_entry_def get_system_tick_def
      split: if_splits)

lemma dispatch_packet_session_ok:
  assumes "session_ok s" and "p_length pkt \<le> 256" and "dispatch_packet pkt q ty s = Some r"
  shows "session_ok r"
proof (cases "ty = PKT_PING \<or> ty = PKT_GET_STATUS \<or> ty = PKT_EMERGENCY_RESET \<or> ty = PKT_ABORT")
  case True
  with assms(3) have "state r \<noteq> STATE_DFU_ACTIVE \<or>
    (state r = state s \<and> total_size r = total_size s \<and> expected_seq r = expected_seq s \<and>
     bytes_received r = bytes_received s)"
    by (cases "state s")
      (auto simp: dispatch_packet_def send_ack_packet_def handle_emergency_condition_def
        enter_state_eq state_entry_state split: if_splits)
  with assms(1) show ?thesis by (rule session_ok_same)
next
  case False
  show ?thesis
  proof (cases "state s")
    case STATE_IDLE
    with False assms(3) show ?thesis
      by (auto simp: dispatch_packet_def intro: handle_idle_packet_session_ok)
  next
    case STATE_DFU_ACTIVE
    with False assms show ?thesis
      by (auto simp: dispatch_packet_def intro: handle_dfu_packet_session_ok)
  qed (use False assms(3) in \<open>auto simp: dispatch_packet_def send_nack_packet_def session_ok_def\<close>)
qed

lemma process_packet_session_ok:
  assumes "session_ok s" and "queue_ok s" and "process_packet s = Some s'"
  shows "session_ok s'"
proof -
  let ?pkt = "buffer s ! tail s"
  let ?s1 = "s\<lparr>tail := (tail s + 1) mod BUFFER_SIZE, count := count s - 1,
             packets_processed := packets_processed s + 1\<rparr>"
  from assms(3) obtain r where
    d: "dispatch_packet ?pkt (p_data ?pkt ! 0) (p_data ?pkt ! 1) ?s1 = Some r"
    and s': "s' = r\<lparr>buffer := (buffer r)[tail s := (buffer r ! tail s)\<lparr>p_valid := False\<rparr>]\<rparr>"
    by (auto simp: process_packet_def Let_def split: bind_splits)
  from assms(2) have "?pkt \<in> set (buffer s)"
    by (simp add: queue_ok_def)
  with assms(2) have l: "p_length ?pkt \<le> 256"
    by (simp add: queue_ok_def MAX_PACKET_SIZE_def)
  from assms(1) have "session_ok ?s1" by (simp add: session_ok_def)
  from dispatch_packet_session_ok [OF this l d] show ?thesis
    by (simp add: s' session_ok_def)
qed

lemma enter_state_session_ok:
  assumes "enter_state n s = Some r" and "n \<noteq> STATE_DFU_ACTIVE"
  shows "session_ok r"
  using enter_state_not_active [OF assms] by (rule session_ok_leave)

lemma handle_timeout_checks_session_ok:
  assumes "session_ok s" and "handle_timeout_checks s = Some r"
  shows "session_ok r"
proof -
  from assms(2) have "state r \<noteq> STATE_DFU_ACTIVE \<or>
    (state r = state s \<and> total_size r = total_size s \<and> expected_seq r = expected_seq s \<and>
     bytes_received r = bytes_received s)"
    by (auto simp: handle_timeout_checks_def get_system_tick_def
        split: bind_splits if_splits bootloader_state_t.splits
        dest: enter_state_not_active)
  with assms(1) show ?thesis by (rule session_ok_same)
qed

lemma background_processing_session_ok:
  assumes "session_ok s" and "background_processing s = Some r"
  shows "session_ok r"
proof -
  from assms(2) have "state r \<noteq> STATE_DFU_ACTIVE \<or>
    (state r = state s \<and> total_size r = total_size s \<and> expected_seq r = expected_seq s \<and>
     bytes_received r = bytes_received s)"
    by (auto simp: background_processing_def get_system_tick_def validate_application_def
        Let_def split: if_splits bootloader_state_t.splits dest: enter_state_not_active)
  with assms(1) show ?thesis by (rule session_ok_same)
qed

lemma session_ok_receive:
  assumes "session_ok s" and "bootloader_receive_packet bytes s = Some (Inr (a, s'))"
  shows "session_ok s'"
proof -
  from assms(2) have "state s' \<noteq> STATE_DFU_ACTIVE \<or>
    (state s' = state s \<and> total_size s' = total_size s \<and> expected_seq s' = expected_seq s \<and>
     bytes_received s' = bytes_received s)"
    by (auto simp: bootloader_receive_packet_def get_system_tick_def Let_def
        handle_emergency_condition_def split: bind_splits if_splits
        dest: enter_state_not_active)
  with assms(1) show ?thesis by (rule session_ok_same)
qed

lemma session_ok_init: "bootloader_init s0 = Some s \<Longrightarrow> session_ok s"
  by (auto simp: bootloader_init_def Let_def intro: enter_state_session_ok)

lemma session_ok_cycle:
  assumes "session_ok s" and "queue_ok s" and "bootloader_process_cycle e s = Some s'"
  shows "session_ok s'"
proof -
  from assms(3) obtain s1 s3 where h: "handle_timeout_checks s = Some s1"
    and b: "background_processing (is_flash_operation_complete e s1) = Some s3"
    and p: "process_packets s3 = Some s'"
    unfolding process_cycle_phases by blast
  from handle_timeout_checks_session_ok [OF assms(1) h]
  have "session_ok (is_flash_operation_complete e s1)"
    by (simp add: session_ok_def is_flash_operation_complete_def)
  from background_processing_session_ok [OF this b] have s3: "session_ok s3" .
  from handle_timeout_checks_queue [OF h] background_processing_queue [OF b]
  have "count s3 = count s" "head s3 = head s" "tail s3 = tail s" "buffer s3 = buffer s"
    by (simp_all add: flash_poll_queue)
  with assms(2) have q3: "queue_ok s3" by (simp add: queue_ok_def)
  have "session_ok s' \<and> queue_ok s'"
  proof (rule process_packets_preserves [where P = "\<lambda>s. session_ok s \<and> queue_ok s", OF _ _ p])
    show "session_ok s3 \<and> queue_ok s3" using s3 q3 by simp
  next
    fix u u1
    assume "session_ok u \<and> queue_ok u" and "0 < count u" and "process_packet u = Some u1"
    then show "session_ok u1 \<and> queue_ok u1"
      using process_packet_session_ok [of u u1] queue_ok_process_packet [of u u1] by simp
  qed
  then show ?thesis by simp
qed

lemma reachable_session_ok: "reachable s \<Longrightarrow> session_ok s"
proof (induction rule: reachable.induct)
  case (init s0 s)
  then show ?case by (rule session_ok_init)
next
  case (receive s bytes accepted s')
  then show ?case by (auto intro: session_ok_receive)
next
  case (cycle s elapsed s')
  from session_ok_cycle [OF cycle.IH reachable_queue_ok [OF cycle.hyps(1)] cycle.hyps(2)]
  show ?case .
qed

lemma oversize_never_complete:
  fixes ts br es :: u32
  assumes "1 \<le> unat es" and "unat es \<le> 256" and "ts \<le> 1048576"
    and "unat (br + 2 * (es - 1)) \<le> 256 * (unat es - 1)" and "64770 < unat ts"
  shows "br \<noteq> ts"
proof
  assume eq: "br = ts"
  let ?n = "unat es - 1"
  from assms(1) have "unat (es - 1) = ?n" by (simp add: unat_sub word_le_nat_alt)
  moreover from assms(2) have n: "?n \<le> 255" by simp
  ultimately have "unat (2 * (es - 1)) = 2 * ?n"
    using unat_mult_lem [of 2 "es - 1"] by simp
  moreover from assms(3) have t: "unat ts \<le> 1048576" by (simp add: word_le_nat_alt)
  ultimately have "unat (ts + 2 * (es - 1)) = unat ts + 2 * ?n"
    using unat_add_lem [of ts "2 * (es - 1)"] n by simp
  with assms(4) eq have "unat ts + 2 * ?n \<le> 256 * ?n" by simp
  with n assms(5) show False by simp
qed

section \<open>Timing between state entry, last activity and the tick\<close>

lemma elapsed_self: "elapsed_us t t = 0"
  by (simp add: elapsed_us_def)

lemma elapsed_add_le: "elapsed_us (t + k) x \<le> elapsed_us t x + unat k"
proof -
  have e: "t + k - x = (t - x) + k" by simp
  show ?thesis unfolding elapsed_us_def e by (rule unat_plus_le)
qed

lemma elapsed_add_exact:
  assumes "elapsed_us t x + unat k < 2 ^ 32"
  shows "elapsed_us (t + k) x = elapsed_us t x + unat k"
proof -
  have e: "t + k - x = (t - x) + k" by simp
  from assms have "unat (t - x) + unat k < 2 ^ LENGTH(32)" by (simp add: elapsed_us_def)
  then show ?thesis unfolding elapsed_us_def e using unat_add_lem [of "t - x" k] by simp
qed

lemma elapsed_later:
  "elapsed_us (t + 1000) x \<le> elapsed_us t x + 1000"
  "elapsed_us (t + 2000) x \<le> elapsed_us t x + 2000"
  "elapsed_us (t + 3000) x \<le> elapsed_us t x + 3000"
  using elapsed_add_le [of t 1000 x] elapsed_add_le [of t 2000 x] elapsed_add_le [of t 3000 x]
  by simp_all

lemma elapsed_exact:
  "elapsed_us t x < 4000000000 \<Longrightarrow> elapsed_us (t + 1000) x = elapsed_us t x + 1000"
  "elapsed_us t x < 4000000000 \<Longrightarrow> elapsed_us (t + 2000) x = elapsed_us t x + 2000"
  using elapsed_add_exact [of t x 1000] elapsed_add_exact [of t x 2000]
  by simp_all

lemma word_less_elapsed: "(c < now - since) = (unat c < elapsed_us now since)"
  by (simp add: elapsed_us_def word_less_nat_alt)

lemmas phase_defs = handle_timeout_checks_def get_system_tick_def background_processing_def
  is_flash_operation_complete_def enter_state_eq state_entry_def validate_application_def
  Let_def

lemma elapsed_numeral_first: "elapsed_us (numeral k + t) x = elapsed_us (t + numeral k) x"
  by (simp add: add.commute)

lemma elapsed_quirk: "elapsed_us (t + 1000) (t + 2000) = 4294966296"
  by (simp add: elapsed_us_def)

lemmas timing_simps = draining_ok_def timing_common_def word_less_elapsed elapsed_self
  elapsed_numeral_first elapsed_quirk

text \<open>
  The cycle up to the drain loop: the timeout checks return, the background work
  returns, and the loop starts with its budget.
\<close>

lemma pre_drain:
  assumes "timing_ok s"
  shows "\<exists>s1 s3. handle_timeout_checks s = Some s1 \<and>
           background_processing (is_flash_operation_complete e s1) = Some s3 \<and>
           draining_ok s3"
proof -
  let ?t = "tick s" and ?la = "last_activity_time s" and ?se = "state_entry_time s"
  from assms have c: "timing_common s"
    and q: "0 < count s \<longrightarrow>
      elapsed_us ?t ?la \<le> (if state s = STATE_EMERGENCY_RECOVERY then 1000 else 0)"
    and a: "state s = STATE_ERROR \<or> state s = STATE_EMERGENCY_RECOVERY \<longrightarrow>
      elapsed_us ?t ?se \<le> 10020000 + 1000 * count s"
    by (simp_all add: timing_ok_def)
  from c have n: "count s \<le> 16" by (simp add: timing_common_def)
  with a have ex: "state s = STATE_ERROR \<or> state s = STATE_EMERGENCY_RECOVERY \<longrightarrow>
      elapsed_us (?t + 1000) ?se = elapsed_us ?t ?se + 1000 \<and>
      elapsed_us (?t + 2000) ?se = elapsed_us ?t ?se + 2000"
    using elapsed_exact [of ?t ?se] by auto
  note l = elapsed_later [of ?t ?la]
  from c a n l have nofire: "session_active s \<and> state s \<noteq> STATE_DFU_ACTIVE \<longrightarrow>
      \<not> (30000000 < elapsed_us (?t + 1000) ?la)"
    by (cases "state s") (auto simp: timing_common_def)
  from q l n have busy: "0 < count s \<longrightarrow> \<not> (30000000 < elapsed_us (?t + 1000) ?la)"
    by (auto split: if_splits)
  note facts = c q a n ex l nofire busy
  show ?thesis
  proof (cases "state s")
    case STATE_IDLE
    with facts show ?thesis by (auto simp: phase_defs timing_simps)
  next
    case STATE_DFU_ACTIVE
    with facts show ?thesis by (auto simp: phase_defs timing_simps)
  next
    case STATE_DFU_VERIFY
    with facts show ?thesis by (auto simp: phase_defs timing_simps)
  next
    case STATE_RUNNING_APP
    with facts show ?thesis by (auto simp: phase_defs timing_simps)
  next
    case STATE_EMERGENCY_RECOVERY
    with facts show ?thesis by (auto simp: phase_defs timing_simps)
  next
    case STATE_ERROR
    with facts show ?thesis by (auto simp: phase_defs timing_simps)
  qed
qed

lemmas dispatch_defs = dispatch_packet_def handle_idle_packet_def handle_dfu_packet_def
  handle_emergency_condition_def start_flash_write_def send_ack_packet_def
  send_nack_packet_def enter_state_eq state_entry_def get_system_tick_def Let_def

lemma dispatch_packet_draining_ok:
  assumes "budget_ok s" and "dispatch_packet pkt q ty s = Some r"
  shows "draining_ok r"
proof -
  note l = elapsed_later(1) [of "tick s" "last_activity_time s"]
  from assms(1) have c: "timing_common s" and n: "count s < 16"
    and b: "elapsed_us (tick s) (last_activity_time s) + 1000 * count s + 1000 \<le> 30000"
    and a: "state s = STATE_ERROR \<or> state s = STATE_EMERGENCY_RECOVERY \<longrightarrow>
        elapsed_us (tick s) (state_entry_time s) + 1000 * count s + 1000 \<le> 10020000"
    by (simp_all add: budget_ok_def)
  note facts = c n b a l assms(2)
  show ?thesis
  proof (cases "state s")
    case STATE_IDLE
    with facts show ?thesis by (auto simp: dispatch_defs timing_simps split: if_splits)
  next
    case STATE_DFU_ACTIVE
    with facts show ?thesis by (auto simp: dispatch_defs timing_simps split: if_splits)
  next
    case STATE_DFU_VERIFY
    with facts show ?thesis by (auto simp: dispatch_defs timing_simps split: if_splits)
  next
    case STATE_RUNNING_APP
    with facts show ?thesis by (auto simp: dispatch_defs timing_simps split: if_splits)
  next
    case STATE_EMERGENCY_RECOVERY
    with facts show ?thesis by (auto simp: dispatch_defs timing_simps split: if_splits)
  next
    case STATE_ERROR
    with facts show ?thesis by (auto simp: dispatch_defs timing_simps split: if_splits)
  qed
qed

lemma process_packet_draining_ok:
  assumes "draining_ok s" and "0 < count s" and "process_packet s = Some s'"
  shows "draining_ok s'"
proof -
  let ?pkt = "buffer s ! tail s"
  let ?s1 = "s\<lparr>tail := (tail s + 1) mod BUFFER_SIZE, count := count s - 1,
             packets_processed := packets_processed s + 1\<rparr>"
  from assms(3) obtain r where
    d: "dispatch_packet ?pkt (p_data ?pkt ! 0) (p_data ?pkt ! 1) ?s1 = Some r"
    and s': "s' = r\<lparr>buffer := (buffer r)[tail s := (buffer r ! tail s)\<lparr>p_valid := False\<rparr>]\<rparr>"
    by (auto simp: process_packet_def Let_def split: bind_splits)
  from assms(2) have k: "1000 * (count s - 1) + 1000 = 1000 * count s" by simp
  from assms(1) have c: "timing_common s"
    and b: "elapsed_us (tick s) (last_activity_time s) + 1000 * count s \<le> 30000"
    and a: "state s = STATE_ERROR \<or> state s = STATE_EMERGENCY_RECOVERY \<longrightarrow>
        elapsed_us (tick s) (state_entry_time s) + 1000 * count s \<le> 10020000"
    using assms(2) by (simp_all add: draining_ok_def)
  from c have c1: "timing_common ?s1" by (auto simp: timing_common_def)
  from c have "count s \<le> 16" by (simp add: timing_common_def)
  with assms(2) have n1: "count ?s1 < 16" by simp
  from c1 n1 a b k have "budget_ok ?s1"
    unfolding budget_ok_def by (simp add: add.assoc)
  from dispatch_packet_draining_ok [OF this d] show ?thesis
    by (simp add: s' draining_ok_def timing_common_def)
qed

lemma draining_done:
  assumes "draining_ok s" and "count s = 0"
  shows "timing_ok s"
  using assms by (simp add: draining_ok_def timing_ok_def)

lemma timing_ok_cycle:
  assumes "timing_ok s" and "queue_ok s"
  shows "\<exists>s'. bootloader_process_cycle e s = Some s' \<and> timing_ok s'"
proof -
  from pre_drain [OF assms(1)] obtain s1 s3 where h: "handle_timeout_checks s = Some s1"
    and b: "background_processing (is_flash_operation_complete e s1) = Some s3"
    and d: "draining_ok s3"
    by blast
  obtain s' where p: "process_packets s3 = Some s'"
    using process_packets_total by blast
  from h b p have c: "bootloader_process_cycle e s = Some s'"
    unfolding process_cycle_phases by blast
  from queue_ok_cycle [OF assms(2) c] have z: "count s' = 0" by simp
  have "draining_ok s'"
    using process_packet_draining_ok d p by (rule process_packets_preserves [where P = draining_ok])
  from draining_done [OF this z] c show ?thesis by blast
qed

lemma timing_ok_init: "bootloader_init s0 = Some s \<Longrightarrow> timing_ok s"
  by (auto simp: bootloader_init_def zeroed_def power_on_def enter_state_eq state_entry_def
      get_system_tick_def Let_def timing_ok_def timing_common_def elapsed_self)

lemma receive_packet_cases:
  assumes "bootloader_receive_packet bytes s = Some (Inr (a, s'))"
  shows "(count s < BUFFER_SIZE \<and>
            (\<exists>b h. s' = s\<lparr>buffer := b, head := h, count := count s + 1,
               tick := tick s + 1000, last_activity_time := tick s + 1000\<rparr>)) \<or>
         (BUFFER_SIZE \<le> count s \<and> s' = s\<lparr>packets_dropped := packets_dropped s + 1\<rparr>) \<or>
         (BUFFER_SIZE \<le> count s \<and> state s \<noteq> STATE_EMERGENCY_RECOVERY \<and>
            s' = state_entry STATE_EMERGENCY_RECOVERY
                   (s\<lparr>packets_dropped := packets_dropped s + 1\<rparr>))"
proof (cases "count s \<ge> BUFFER_SIZE")
  case True
  with assms show ?thesis
    by (cases "state s")
      (auto simp: bootloader_receive_packet_def handle_emergency_condition_def
        enter_state_eq Let_def split: if_splits)
next
  case False
  with assms show ?thesis
    by (auto simp: bootloader_receive_packet_def get_system_tick_def Let_def split: if_splits)
qed

lemma timing_ok_receive:
  assumes "timing_ok s" and "bootloader_receive_packet bytes s = Some (Inr (a, s'))"
  shows "timing_ok s'"
proof -
  note l = elapsed_later(1) [of "tick s" "last_activity_time s"]
    elapsed_later(1) [of "tick s" "state_entry_time s"]
  from assms(1) have c: "timing_common s"
    and q: "0 < count s \<longrightarrow> elapsed_us (tick s) (last_activity_time s)
          \<le> (if state s = STATE_EMERGENCY_RECOVERY then 1000 else 0)"
    and e: "state s = STATE_ERROR \<or> state s = STATE_EMERGENCY_RECOVERY \<longrightarrow>
        elapsed_us (tick s) (state_entry_time s) \<le> 10020000 + 1000 * count s"
    by (simp_all add: timing_ok_def)
  from receive_packet_cases [OF assms(2)] show ?thesis
  proof (elim disjE conjE exE)
    fix b h
    assume "count s < BUFFER_SIZE" and "s' = s\<lparr>buffer := b, head := h, count := count s + 1,
               tick := tick s + 1000, last_activity_time := tick s + 1000\<rparr>"
    with c e l show ?thesis
      by (auto simp: timing_ok_def timing_common_def elapsed_self BUFFER_SIZE_def)
  next
    assume "s' = s\<lparr>packets_dropped := packets_dropped s + 1\<rparr>"
    with assms(1) show ?thesis by (simp add: timing_ok_def timing_common_def)
  next
    assume f: "BUFFER_SIZE \<le> count s" and ne: "state s \<noteq> STATE_EMERGENCY_RECOVERY"
      and s': "s' = state_entry STATE_EMERGENCY_RECOVERY
                   (s\<lparr>packets_dropped := packets_dropped s + 1\<rparr>)"
    from f q ne have z: "elapsed_us (tick s) (last_activity_time s) = 0"
      by (simp add: BUFFER_SIZE_def)
    with c l s' show ?thesis
      by (simp add: timing_ok_def timing_common_def elapsed_self state_entry_def
          get_system_tick_def)
  qed
qed

lemma reachable_timing_ok: "reachable s \<Longrightarrow> timing_ok s"
proof (induction rule: reachable.induct)
  case (init s0 s)
  then show ?case by (rule timing_ok_init)
next
  case (receive s bytes accepted s')
  then show ?case by (auto intro: timing_ok_receive)
next
  case (cycle s elapsed s')
  from timing_ok_cycle [OF cycle.IH reachable_queue_ok [OF cycle.hyps(1)], of elapsed]
    cycle.hyps(2)
  show ?case by auto
qed

section \<open>Evaluating the model on concrete inputs\<close>

lemmas eval_defs =
  submit_and_process_def bootloader_receive_packet_def bootloader_process_cycle_def
  handle_timeout_checks_def background_processing_def process_packet_def dispatch_packet_def
  handle_idle_packet_def handle_dfu_packet_def handle_emergency_condition_def
  send_ack_packet_def send_nack_packet_def start_flash_write_def
  is_flash_operation_complete_def get_system_tick_def validate_application_def
  state_entry_def memcpy_def bootloader_init_def zeroed_def power_on_def
  BUFFER_SIZE_def MAX_PACKET_SIZE_def APPLICATION_START_def pkt_defs Let_def
  enter_state.simps process_packets.simps

lemma after_init_eq: "bootloader_init power_on = Some after_init"
  by (simp add: after_init_def eval_defs)


lemma reachable_submit:
  assumes "reachable s" and "submit_and_process bytes elapsed s = Some s'"
  shows "reachable s'"
proof -
  from assms(2) obtain s1 where
    r: "bootloader_receive_packet bytes s = Some (Inr (True, s1))" and
    c: "bootloader_process_cycle elapsed s1 = Some s'"
    by (auto simp: submit_and_process_def split: option.splits sum.splits bool.splits)
  from reachable.receive [OF assms(1) r] have "reachable s1" .
  from reachable.cycle [OF this c] show ?thesis .
qed

lemma reachable_cycles:
  "reachable s \<Longrightarrow> cycles n elapsed s = Some s' \<Longrightarrow> reachable s'"
  by (induction n arbitrary: s) (auto split: option.splits intro: reachable.cycle)

lemma reachable_after_init: "reachable after_init"
  by (rule reachable.init [OF after_init_eq])


lemma in_recovery_state: "state in_recovery = STATE_EMERGENCY_RECOVERY"
  by (simp add: in_recovery_def after_init_def eval_defs)

section \<open>Dispatch in EMERGENCY_RECOVERY\<close>

text \<open>
  C4, as stated, fails: \<open>GET_STATUS\<close> is one of the types handled before the state
  is looked at, and it is answered with ACK in every state. In the recovery state
  reached by the tests' emergency packet, a submitted \<open>GET_STATUS\<close> gets ACK, not
  NACK(0x10).
\<close>

theorem get_status_in_recovery_is_acked:
  "state in_recovery = STATE_EMERGENCY_RECOVERY \<and>
   map_option sent (submit_and_process [0x01, 0x06] False in_recovery)
     = Some (sent in_recovery @ [ACK])"
  by (simp add: in_recovery_def after_init_def eval_defs)

text \<open>
  C4, amended. For a packet dispatched in \<open>STATE_EMERGENCY_RECOVERY\<close>: \<open>PING\<close> and
  \<open>GET_STATUS\<close> are answered with ACK; every type other than the four handled
  before the state is looked at (\<open>PING\<close>, \<open>GET_STATUS\<close>, \<open>EMERGENCY_RESET\<close>, \<open>ABORT\<close>) is
  answered with NACK(0x10); in both cases the frame sent is the only change.
  \<open>EMERGENCY_RESET\<close> is acted on without a frame: the transition from recovery to
  recovery is not in the table, so the state entered is \<open>STATE_ERROR\<close>.
\<close>

theorem recovery_dispatch:
  assumes "state s = STATE_EMERGENCY_RECOVERY"
  shows "(ty = PKT_PING \<or> ty = PKT_GET_STATUS \<longrightarrow>
            dispatch_packet pkt seq ty s = Some (s\<lparr>sent := sent s @ [ACK]\<rparr>)) \<and>
         (ty \<noteq> PKT_PING \<and> ty \<noteq> PKT_GET_STATUS \<and> ty \<noteq> PKT_EMERGENCY_RESET \<and>
          ty \<noteq> PKT_ABORT \<longrightarrow>
            dispatch_packet pkt seq ty s = Some (s\<lparr>sent := sent s @ [NACK 0x10]\<rparr>)) \<and>
         (ty = PKT_EMERGENCY_RESET \<longrightarrow>
            dispatch_packet pkt seq ty s = Some (state_entry STATE_ERROR s))"
  using assms
  by (simp add: dispatch_packet_def send_ack_packet_def send_nack_packet_def
      handle_emergency_condition_def enter_state_eq pkt_defs)

theorem recovery_dispatch_witness:
  "dispatch_packet (buffer in_recovery ! 0) 0x01 PKT_START_SESSION in_recovery
     = Some (in_recovery\<lparr>sent := sent in_recovery @ [NACK 0x10]\<rparr>) \<and>
   dispatch_packet (buffer in_recovery ! 0) 0x02 PKT_PING in_recovery
     = Some (in_recovery\<lparr>sent := sent in_recovery @ [ACK]\<rparr>) \<and>
   dispatch_packet (buffer in_recovery ! 0) 0x03 PKT_EMERGENCY_RESET in_recovery
     = Some (state_entry STATE_ERROR in_recovery)"
  using recovery_dispatch [OF in_recovery_state, of PKT_START_SESSION "buffer in_recovery ! 0" "0x01"]
    recovery_dispatch [OF in_recovery_state, of PKT_PING "buffer in_recovery ! 0" "0x02"]
    recovery_dispatch [OF in_recovery_state, of PKT_EMERGENCY_RESET "buffer in_recovery ! 0" "0x03"]
  by (simp add: pkt_defs)

section \<open>Responses\<close>


lemma state_entry_sent: "sent (state_entry n s) = sent s"
  by (cases n; simp add: state_entry_def get_system_tick_def)

lemma enter_state_sent: "enter_state n s = Some r \<Longrightarrow> sent r = sent s"
  using enter_state_cases [of n s r] by (auto simp: state_entry_sent)





section \<open>Waiting out the error state\<close>

lemma elapsed_after_tick: "unat (t + 1000 - x :: u32) \<le> unat (t - x) + 1000"
proof -
  have e: "t + 1000 - x = (t - x) + 1000" by simp
  have "unat ((t - x) + 1000) \<le> unat (t - x) + unat (1000 :: u32)" by (rule unat_plus_le)
  then show ?thesis unfolding e by simp
qed

lemma error_wait_cycle:
  assumes "state s = STATE_ERROR" and "count s = 0" and "\<not> session_active s"
    and "\<not> flash_busy s" and "unat (tick s - state_entry_time s) + 1000 \<le> 5000000"
  shows "bootloader_process_cycle e s = Some (s\<lparr>tick := tick s + 1000\<rparr>)"
proof -
  have "unat (tick s + 1000 - state_entry_time s) \<le> 5000000"
    using elapsed_after_tick [of "tick s" "state_entry_time s"] assms(5) by simp
  then have "\<not> (5000000 < tick s + 1000 - state_entry_time s)"
    by (simp add: word_less_nat_alt)
  with assms show ?thesis
    by (simp add: bootloader_process_cycle_def handle_timeout_checks_def get_system_tick_def
        is_flash_operation_complete_def background_processing_def process_packets.simps)
qed

lemma error_wait_cycles:
  assumes "state s = STATE_ERROR" and "count s = 0" and "\<not> session_active s"
    and "\<not> flash_busy s" and "unat (tick s - state_entry_time s) + 1000 * n \<le> 5000000"
  shows "cycles n e s = Some (s\<lparr>tick := tick s + of_nat (1000 * n)\<rparr>)"
  using assms
proof (induction n arbitrary: s)
  case 0
  then show ?case by simp
next
  case (Suc n)
  let ?s' = "s\<lparr>tick := tick s + 1000\<rparr>"
  from Suc.prems have step: "bootloader_process_cycle e s = Some ?s'"
    by (intro error_wait_cycle) simp_all
  have "unat (tick ?s' - state_entry_time ?s') + 1000 * n \<le> 5000000"
    using elapsed_after_tick [of "tick s" "state_entry_time s"] Suc.prems(5) by simp
  with Suc.prems have "cycles n e ?s' = Some (?s'\<lparr>tick := tick ?s' + of_nat (1000 * n)\<rparr>)"
    by (intro Suc.IH) simp_all
  with step show ?case by (simp add: algebra_simps)
qed

lemma cycles_add:
  "cycles (m + n) e s = (case cycles m e s of None \<Rightarrow> None | Some s' \<Rightarrow> cycles n e s')"
  by (induction m arbitrary: s) (auto split: option.splits)

lemma after_init_val:
  "after_init = state_entry STATE_ERROR
     (power_on\<lparr>session_timeout_ms := 30000, app_validation_timeout_ms := 5000\<rparr>)"
  by (simp add: after_init_def eval_defs)

lemma waited: "cycles 5000 False after_init = Some (after_init\<lparr>tick := 5001000\<rparr>)"
proof -
  have "cycles 5000 False after_init
      = Some (after_init\<lparr>tick := tick after_init + of_nat (1000 * 5000)\<rparr>)"
    by (rule error_wait_cycles) (simp_all add: after_init_val eval_defs)
  then show ?thesis by (simp add: after_init_val eval_defs)
qed

lemma idle_ready_eq: "cycles 5001 False after_init = Some idle_ready"
proof -
  have "cycles 1 False (after_init\<lparr>tick := 5001000\<rparr>) \<noteq> None"
    by (simp add: after_init_val eval_defs)
  with waited cycles_add [of 5000 1 False after_init] show ?thesis
    by (auto simp: idle_ready_def)
qed

lemma idle_ready_val:
  "idle_ready = state_entry STATE_IDLE (after_init\<lparr>tick := 5002000\<rparr>)"
proof -
  have "cycles 1 False (after_init\<lparr>tick := 5001000\<rparr>)
      = Some (state_entry STATE_IDLE (after_init\<lparr>tick := 5002000\<rparr>))"
    by (simp add: after_init_val eval_defs)
  with waited cycles_add [of 5000 1 False after_init] show ?thesis
    by (simp add: idle_ready_def)
qed

lemma idle_ready_fields:
  "state idle_ready = STATE_IDLE \<and> tick idle_ready = 5003000 \<and>
   error_count idle_ready = 1 \<and> sent idle_ready = []"
  by (simp add: idle_ready_val after_init_val eval_defs)

lemma in_session_eq:
  "submit_and_process [0x00, 0x01, 0x00, 0x01, 0x00, 0x00, 0x12, 0x34] False idle_ready
     = Some in_session"
  by (simp add: in_session_def idle_ready_val after_init_val eval_defs)

lemma in_session_fields:
  "state in_session = STATE_DFU_ACTIVE \<and> total_size in_session = 65536 \<and>
   expected_seq in_session = 1 \<and> sent in_session = [ACK]"
  by (simp add: in_session_def idle_ready_val after_init_val eval_defs)

lemma reachable_idle_ready: "reachable idle_ready"
  by (rule reachable_cycles [OF reachable_after_init idle_ready_eq])

lemma reachable_in_session: "reachable in_session"
  by (rule reachable_submit [OF reachable_idle_ready in_session_eq])

section \<open>DATA packets that are rejected\<close>

lemma in_session_state: "state in_session = STATE_DFU_ACTIVE"
  using in_session_fields by simp

lemma state_entry_session:
  "n \<noteq> STATE_IDLE \<Longrightarrow> bytes_received (state_entry n s) = bytes_received s"
  "n \<noteq> STATE_IDLE \<Longrightarrow> expected_seq (state_entry n s) = expected_seq s"
  "state (state_entry n s) = n"
  by (cases n; simp add: state_entry_def get_system_tick_def)+

text \<open>
  C7. A \<open>DATA\<close> packet dispatched in \<open>STATE_DFU_ACTIVE\<close> is always answered. With a
  sequence byte other than \<open>expected_seq\<close> the answer is NACK(0x02); with the
  expected sequence and a busy flash driver it is NACK(0x03); and whenever the answer
  is one of these two, \<open>bytes_received\<close> and \<open>expected_seq\<close> are as before.
\<close>

theorem rejected_data_keeps_progress:
  assumes "state s = STATE_DFU_ACTIVE"
  shows "\<exists>r. dispatch_packet pkt seq PKT_DATA s = Some r \<and>
           (ucast seq \<noteq> expected_seq s \<longrightarrow> sent r = sent s @ [NACK 0x02]) \<and>
           (ucast seq = expected_seq s \<and> flash_busy s \<longrightarrow> sent r = sent s @ [NACK 0x03]) \<and>
           (sent r = sent s @ [NACK 0x02] \<or> sent r = sent s @ [NACK 0x03] \<longrightarrow>
              bytes_received r = bytes_received s \<and> expected_seq r = expected_seq s)"
  using assms
  by (auto simp: dispatch_packet_def handle_dfu_packet_def pkt_defs
      handle_emergency_condition_def send_ack_packet_def send_nack_packet_def
      start_flash_write_def Let_def enter_state_eq state_entry_session state_entry_sent)

theorem rejected_data_keeps_progress_witness:
  "\<exists>r. dispatch_packet (buffer in_session ! 1) 0x09 PKT_DATA in_session = Some r \<and>
       sent r = sent in_session @ [NACK 0x02] \<and>
       bytes_received r = bytes_received in_session \<and>
       expected_seq r = expected_seq in_session"
  using rejected_data_keeps_progress [OF in_session_state, of "buffer in_session ! 1" "0x09"]
    in_session_fields
  by auto

text \<open>
  C8. A \<open>DATA\<close> packet dispatched in \<open>STATE_DFU_ACTIVE\<close> whose sequence byte differs
  from \<open>expected_seq\<close> is answered with NACK(0x02) and increments \<open>error_count\<close>; if
  the incremented count exceeds 5 the state becomes \<open>STATE_EMERGENCY_RECOVERY\<close>,
  otherwise it stays \<open>STATE_DFU_ACTIVE\<close>.
\<close>

theorem sequence_error_escalates:
  assumes "state s = STATE_DFU_ACTIVE" and "ucast seq \<noteq> expected_seq s"
  shows "\<exists>r. dispatch_packet pkt seq PKT_DATA s = Some r \<and>
           sent r = sent s @ [NACK 0x02] \<and>
           error_count r = error_count s + 1 \<and>
           (error_count r > 5 \<longrightarrow> state r = STATE_EMERGENCY_RECOVERY) \<and>
           (\<not> error_count r > 5 \<longrightarrow> state r = STATE_DFU_ACTIVE)"
  using assms
  by (auto simp: dispatch_packet_def handle_dfu_packet_def pkt_defs
      handle_emergency_condition_def send_nack_packet_def
      Let_def enter_state_eq state_entry_def get_system_tick_def)

theorem sequence_error_escalates_witness:
  "\<exists>r. dispatch_packet (buffer in_session ! 1) 0x09 PKT_DATA in_session = Some r \<and>
       sent r = sent in_session @ [NACK 0x02] \<and>
       error_count r = 2 \<and> state r = STATE_DFU_ACTIVE"
proof -
  have ec: "error_count in_session = 1"
    by (simp add: in_session_def idle_ready_val after_init_val eval_defs)
  have ne: "ucast (0x09 :: u8) \<noteq> expected_seq in_session"
    using in_session_fields by simp
  from sequence_error_escalates [OF in_session_state ne, of "buffer in_session ! 1"] ec
  show ?thesis by auto
qed

section \<open>Enqueue\<close>

text \<open>With room in the ring and at most 256 bytes, the packet is stored at \<open>head\<close>.\<close>

lemma receive_packet_accepts:
  assumes "count s < BUFFER_SIZE" and "length bytes \<le> MAX_PACKET_SIZE"
  shows "bootloader_receive_packet bytes s =
    Some (Inr (True,
      s\<lparr>buffer := (buffer s)[head s :=
             (buffer s ! head s)
               \<lparr>p_data := bytes @ drop (length bytes) (p_data (buffer s ! head s)),
                p_length := length bytes, p_valid := True\<rparr>],
         head := (head s + 1) mod BUFFER_SIZE, count := count s + 1,
         tick := tick s + 1000, last_activity_time := tick s + 1000\<rparr>))"
  using assms
  by (simp add: bootloader_receive_packet_def memcpy_def get_system_tick_def Let_def)

text \<open>
  C6. The spec has the enqueue copy at most \<open>MAX_PACKET_SIZE\<close> bytes whatever the
  caller's length. The source passes \<open>length\<close> to \<open>memcpy\<close> unchecked: the 258-byte
  \<open>DATA\<close> packet of the tests (two header bytes and 256 payload bytes), submitted
  while the ring has room, makes \<open>memcpy\<close> write 258 bytes into the 256-byte slot,
  and the slot is queued with the length 258.
\<close>

theorem oversized_packet_overruns_slot:
  "bootloader_receive_packet (0x01 # 0x02 # replicate 256 0xAA) in_session
     = Some (Inl (Slot_overrun 258
         (in_session
            \<lparr>buffer := (buffer in_session)
               [1 := (buffer in_session ! 1)
                  \<lparr>p_data := 0x01 # 0x02 # replicate 256 0xAA, p_length := 258, p_valid := True\<rparr>],
             head := 2, count := 1,
             tick := tick in_session + 1000,
             last_activity_time := tick in_session + 1000\<rparr>)))"
  by (simp add: bootloader_receive_packet_def BUFFER_SIZE_def MAX_PACKET_SIZE_def
      in_session_def idle_ready_val after_init_val eval_defs)

section \<open>Verification of the written image\<close>

lemma funpow8: "(f ^^ 8) x = f (f (f (f (f (f (f (f x)))))))"
  by (simp add: eval_nat_numeral)

lemma crc16_ccitt_vals: "crc16_ccitt [0x00] = 0xE1F0" "crc16_ccitt [0x01] = 0xF1D1"
  by (simp_all add: crc16_ccitt_def crc16_byte_def crc16_shift_def funpow8)

text \<open>
  C3, as stated, fails: no CRC is computed over the written bytes. Two one-byte
  sessions that declare the CRC 0x1234 and write the images \<open>[0x00]\<close> and \<open>[0x01]\<close>
  both pass the comparison and go on to \<open>STATE_RUNNING_APP\<close>, although the CRC-16/CCITT
  of neither image is 0x1234.
\<close>

theorem validation_ignores_image:
  "state (verify_pending 0x00) = STATE_DFU_VERIFY \<and>
   session_image (verify_pending 0x00) = [0x00] \<and>
   session_image (verify_pending 0x01) = [0x01] \<and>
   bytes_received (verify_pending 0x00) = 1 \<and>
   expected_crc (verify_pending 0x00) = 0x1234 \<and>
   expected_crc (verify_pending 0x01) = 0x1234 \<and>
   ucast (crc16_ccitt (session_image (verify_pending 0x00))) \<noteq> expected_crc (verify_pending 0x00) \<and>
   ucast (crc16_ccitt (session_image (verify_pending 0x01))) \<noteq> expected_crc (verify_pending 0x01) \<and>
   map_option (\<lambda>r. (v_valid (app_validation r), state r))
      (bootloader_process_cycle False (verify_pending 0x00)) = Some (True, STATE_RUNNING_APP) \<and>
   map_option (\<lambda>r. (v_valid (app_validation r), state r))
      (bootloader_process_cycle False (verify_pending 0x01)) = Some (True, STATE_RUNNING_APP)"
  by (simp add: verify_pending_def session_image_def idle_ready_val after_init_val eval_defs
      crc16_ccitt_vals)

lemma state_entry_validation:
  "app_validation (state_entry n s) = app_validation s" "state (state_entry n s) = n"
  by (cases n; simp add: state_entry_def get_system_tick_def)+

text \<open>
  C3, amended. In \<open>STATE_DFU_VERIFY\<close> the background work records the size
  \<open>bytes_received\<close>, takes the constant 0x1234 as the calculated CRC and compares it
  with the session's \<open>expected_crc\<close>: the comparison succeeds exactly when
  \<open>expected_crc\<close> is 0x1234. Success enters \<open>STATE_RUNNING_APP\<close>, failure
  \<open>STATE_ERROR\<close>.
\<close>

theorem verify_compares_with_constant:
  assumes "state s = STATE_DFU_VERIFY"
  shows "\<exists>r. background_processing s = Some r \<and>
           app_validation r =
             \<lparr>v_valid = (expected_crc s = 0x1234), v_calculated_crc = 0x1234,
              v_expected_crc = expected_crc s, v_size = bytes_received s\<rparr> \<and>
           (expected_crc s = 0x1234 \<longrightarrow> state r = STATE_RUNNING_APP) \<and>
           (expected_crc s \<noteq> 0x1234 \<longrightarrow> state r = STATE_ERROR)"
  using assms
  by (auto simp: background_processing_def validate_application_def Let_def enter_state_eq
      state_entry_validation)

lemma verify_pending_fields:
  "state (verify_pending 0x00) = STATE_DFU_VERIFY \<and>
   expected_crc (verify_pending 0x00) = 0x1234 \<and> bytes_received (verify_pending 0x00) = 1"
  by (simp add: verify_pending_def idle_ready_val after_init_val eval_defs)

theorem verify_compares_with_constant_witness:
  "\<exists>r. background_processing (verify_pending 0x00) = Some r \<and>
       app_validation r =
         \<lparr>v_valid = True, v_calculated_crc = 0x1234, v_expected_crc = 0x1234, v_size = 1\<rparr> \<and>
       state r = STATE_RUNNING_APP"
proof -
  from verify_pending_fields have st: "state (verify_pending 0x00) = STATE_DFU_VERIFY" by simp
  from verify_compares_with_constant [OF st] verify_pending_fields show ?thesis by auto
qed

section \<open>How much a session can carry\<close>

text \<open>
  As long as every packet fits its slot (the runs of \<open>reachable\<close>), a session in
  \<open>STATE_DFU_ACTIVE\<close> has \<open>expected_seq\<close> within 1..256. It starts at 1, an accepted
  \<open>DATA\<close> (answered with ACK) requires it to be at most 255 and adds exactly one, so
  at most 255 \<open>DATA\<close> packets are accepted; at 256 no sequence byte matches and every
  \<open>DATA\<close> gets NACK(0x02). With a declared size above 255 * 254 = 64770,
  \<open>bytes_received\<close> then differs from \<open>total_size\<close>, and \<open>END_SESSION\<close> is answered
  with NACK(0x08) and leads to \<open>STATE_ERROR\<close>, not to \<open>STATE_DFU_VERIFY\<close>.
\<close>

lemma session_capacity_within_slots:
  assumes "reachable s" and "state s = STATE_DFU_ACTIVE"
  shows "1 \<le> unat (expected_seq s) \<and> unat (expected_seq s) \<le> 256 \<and>
     (\<forall>pkt seq r. dispatch_packet pkt seq PKT_DATA s = Some r \<and> sent r = sent s @ [ACK] \<longrightarrow>
        unat (expected_seq s) \<le> 255 \<and> unat (expected_seq r) = unat (expected_seq s) + 1) \<and>
     (unat (expected_seq s) = 256 \<longrightarrow>
        (\<forall>pkt seq. \<exists>r. dispatch_packet pkt seq PKT_DATA s = Some r \<and>
           sent r = sent s @ [NACK 0x02] \<and> expected_seq r = expected_seq s)) \<and>
     (64770 < unat (total_size s) \<longrightarrow>
        bytes_received s \<noteq> total_size s \<and>
        (\<forall>pkt seq. \<exists>r. dispatch_packet pkt seq PKT_END_SESSION s = Some r \<and>
           sent r = sent s @ [NACK 0x08] \<and> state r = STATE_ERROR))"
proof -
  from reachable_session_ok [OF assms(1)] assms(2)
  have i: "total_size s \<le> 1048576" "1 \<le> unat (expected_seq s)" "unat (expected_seq s) \<le> 256"
    "unat (bytes_received s + 2 * (expected_seq s - 1)) \<le> 256 * (unat (expected_seq s) - 1)"
    by (simp_all add: session_ok_def)
  have match: "unat (expected_seq s) \<le> 255" if "ucast seq = expected_seq s" for seq :: u8
  proof -
    have "unat seq < 2 ^ LENGTH(8)" by (rule unsigned_less)
    with that [symmetric] show ?thesis by (simp add: unat_ucast_u8)
  qed
  have acc: "unat (expected_seq s) \<le> 255 \<and> unat (expected_seq r) = unat (expected_seq s) + 1"
    if "dispatch_packet pkt seq PKT_DATA s = Some r" and "sent r = sent s @ [ACK]" for pkt seq r
  proof -
    from that assms(2) have m: "ucast seq = expected_seq s" and e: "expected_seq r = expected_seq s + 1"
      by (auto simp: dispatch_packet_def handle_dfu_packet_def pkt_defs start_flash_write_def
          send_ack_packet_def send_nack_packet_def handle_emergency_condition_def Let_def
          enter_state_eq state_entry_sent split: if_splits)
    from match [OF m] have le: "unat (expected_seq s) \<le> 255" .
    then have "unat (expected_seq s) + unat (1 :: u32) < 2 ^ LENGTH(32)" by simp
    with e have "unat (expected_seq r) = unat (expected_seq s) + 1"
      using unat_add_lem [of "expected_seq s" 1] by simp
    with le show ?thesis by simp
  qed
  have full: "\<exists>r. dispatch_packet pkt seq PKT_DATA s = Some r \<and>
      sent r = sent s @ [NACK 0x02] \<and> expected_seq r = expected_seq s"
    if "unat (expected_seq s) = 256" for pkt seq
  proof -
    from that match [of seq] have "ucast seq \<noteq> expected_seq s" by auto
    with assms(2) show ?thesis
      by (auto simp: dispatch_packet_def handle_dfu_packet_def pkt_defs
          send_nack_packet_def handle_emergency_condition_def Let_def
          enter_state_eq state_entry_def get_system_tick_def)
  qed
  have big: "bytes_received s \<noteq> total_size s \<and>
      (\<forall>pkt seq. \<exists>r. dispatch_packet pkt seq PKT_END_SESSION s = Some r \<and>
           sent r = sent s @ [NACK 0x08] \<and> state r = STATE_ERROR)"
    if "64770 < unat (total_size s)"
  proof -
    from oversize_never_complete [OF i(2) i(3) i(1) i(4) that]
    have ne: "bytes_received s \<noteq> total_size s" .
    with assms(2) show ?thesis
      by (auto simp: dispatch_packet_def handle_dfu_packet_def pkt_defs
          send_nack_packet_def Let_def enter_state_eq state_entry_def get_system_tick_def)
  qed
  from i(2,3) acc full big show ?thesis by blast
qed

text \<open>
  The bound of 254 payload bytes per packet is not the code's. A packet of 258 bytes
  is queued with the length 258 and adds 256 bytes to the session.
\<close>

lemma ucast_of_nat_u8: "k < 256 \<Longrightarrow> ucast (of_nat k :: u8) = (of_nat k :: u32)"
  by (simp add: unsigned_of_nat take_bit_nat_eq_self)

lemma fed_start:
  "\<exists>s. push_and_process [0x00, 0x01, 0x00, 0x00, 0xFF, 0x00, 0x12, 0x34] False idle_ready = Some s
     \<and> fed 0 s"
  by (simp add: fed_def push_and_process_def carried_on_def idle_ready_val after_init_val eval_defs)

lemma fed_step:
  assumes "fed k s" and "k < 255"
  shows "\<exists>s'. push_and_process (data_258 (Suc k)) True s = Some s' \<and> fed (Suc k) s'"
proof -
  from assms(2) have u: "ucast (of_nat (Suc k) :: u8) = (of_nat (Suc k) :: u32)"
    by (intro ucast_of_nat_u8) simp
  have b: "(of_nat (256 * k) :: u32) + 256 = of_nat (256 * Suc k)"
    by simp
  from assms(1) u b show ?thesis
    by (simp add: fed_def push_and_process_def carried_on_def data_258_def
        bootloader_receive_packet_def bootloader_process_cycle_def
        handle_timeout_checks_def background_processing_def process_packet_def
        process_packets.simps dispatch_packet_def handle_dfu_packet_def
        is_flash_operation_complete_def start_flash_write_def send_ack_packet_def
        get_system_tick_def memcpy_def pkt_defs BUFFER_SIZE_def MAX_PACKET_SIZE_def Let_def
        replicate_append_same)
qed

lemma fed_feed:
  assumes "fed k s" and "k + n \<le> 255"
  shows "\<exists>s'. feed_data n (Suc k) s = Some s' \<and> fed (k + n) s'"
  using assms
proof (induction n arbitrary: k s)
  case 0
  then show ?case by simp
next
  case (Suc n)
  from Suc.prems have "k < 255" by simp
  from fed_step [OF Suc.prems(1) this] obtain s1 where
    s1: "push_and_process (data_258 (Suc k)) True s = Some s1" "fed (Suc k) s1" by blast
  from Suc.prems(2) have "Suc k + n \<le> 255" by simp
  from Suc.IH [OF s1(2) this] s1(1) show ?case by simp
qed

lemma fed_end:
  assumes "fed 255 s"
  shows "\<exists>r. push_and_process [0x00, 0x03] True s = Some r \<and>
     state r = STATE_DFU_VERIFY \<and> bytes_received r = 65280 \<and> total_size r = 65280 \<and>
     expected_seq r = 256 \<and> sent r = replicate 257 ACK"
proof -
  have "(257::nat) = Suc 256" by simp
  then have r: "replicate 257 ACK = ACK # replicate 256 ACK"
    by (simp only: replicate_Suc)
  from assms show ?thesis
    unfolding r
    by (simp add: fed_def push_and_process_def carried_on_def
        bootloader_receive_packet_def bootloader_process_cycle_def
        handle_timeout_checks_def background_processing_def process_packet_def
        process_packets.simps dispatch_packet_def handle_dfu_packet_def
        is_flash_operation_complete_def send_ack_packet_def enter_state_eq state_entry_def
        get_system_tick_def memcpy_def pkt_defs BUFFER_SIZE_def MAX_PACKET_SIZE_def Let_def
        replicate_append_same)
qed

text \<open>
  C10. The spec has a session above 255 * 254 = 64770 bytes never reach
  \<open>STATE_DFU_VERIFY\<close>, because at most 255 \<open>DATA\<close> packets are accepted and each
  carries at most 254 payload bytes. The count of 255 packets holds, the 254 bytes do
  not: the enqueue stores any length. The session \<open>long_session\<close> declares 65280
  bytes and sends the 255 packets of 258 bytes that the sequence numbers allow; each
  of them is answered with ACK and counts 256 bytes, and the \<open>END_SESSION\<close> is
  answered with ACK and enters \<open>STATE_DFU_VERIFY\<close> with all 65280 bytes received.
\<close>

theorem oversize_session_reaches_verify:
  "map_option (\<lambda>r. (state r, bytes_received r, total_size r, expected_seq r, sent r)) long_session
     = Some (STATE_DFU_VERIFY, 65280, 65280, 256, replicate 257 ACK)"
proof -
  from fed_start obtain s1 where
    s1: "push_and_process [0x00, 0x01, 0x00, 0x00, 0xFF, 0x00, 0x12, 0x34] False idle_ready = Some s1"
      "fed 0 s1" by blast
  from fed_feed [OF s1(2), of 255] obtain s2 where
    s2: "feed_data 255 1 s1 = Some s2" "fed 255 s2" by auto
  from fed_end [OF s2(2)] obtain r where
    r: "push_and_process [0x00, 0x03] True s2 = Some r" "state r = STATE_DFU_VERIFY"
      "bytes_received r = 65280" "total_size r = 65280" "expected_seq r = 256"
      "sent r = replicate 257 ACK" by blast
  from s1(1) s2(1) r show ?thesis by (simp add: long_session_def)
qed

section \<open>The cycle returns, or does not\<close>

text \<open>
  As long as every packet fits its slot and only the core reads the tick (the runs
  of \<open>reachable\<close>), the timeout checks return and \<open>bootloader_process_cycle\<close> returns,
  whatever the queue holds and whatever the flash poll answers: the tick then
  advances by 1 ms per reading of the core, and the error state is left after 5 s,
  long before a session can be 30 s old.
\<close>

lemma process_cycle_returns_undisturbed:
  assumes "reachable s"
  shows "(\<exists>s1. handle_timeout_checks s = Some s1) \<and>
         (\<exists>s'. bootloader_process_cycle elapsed s = Some s')"
proof -
  from timing_ok_cycle [OF reachable_timing_ok [OF assms] reachable_queue_ok [OF assms]]
  obtain s' where c: "bootloader_process_cycle elapsed s = Some s'" by blast
  then obtain s1 where "handle_timeout_checks s = Some s1"
    unfolding process_cycle_phases by blast
  with c show ?thesis by blast
qed

text \<open>
  A session timeout that fires in \<open>STATE_ERROR\<close> calls \<open>enter_state(STATE_ERROR)\<close>
  from \<open>STATE_ERROR\<close>. The table has no such transition, so \<open>enter_state\<close> calls
  itself with the same argument in the same state, and never returns.
\<close>

lemma session_timeout_in_error_diverges:
  assumes "state s = STATE_ERROR" and "session_active s"
    and "session_timeout_ms s * 1000 < tick s + 1000 - last_activity_time s"
  shows "bootloader_process_cycle e s = None"
  using assms
  by (simp add: bootloader_process_cycle_def handle_timeout_checks_def get_system_tick_def
      enter_state_eq)

lemma tick_reads_eq: "tick_reads n s = s\<lparr>tick := tick s + of_nat (1000 * n)\<rparr>"
proof (induction n arbitrary: s)
  case 0
  then show ?case by simp
next
  case (Suc n)
  then show ?case by (simp add: get_system_tick_def algebra_simps)
qed

lemma error_with_session_eq:
  "submit_and_process [0x01, 0x03] False in_session = Some error_with_session"
  by (simp add: error_with_session_def in_session_def idle_ready_val after_init_val eval_defs)

lemma error_with_session_fields:
  "state error_with_session = STATE_ERROR \<and> session_active error_with_session \<and>
   session_timeout_ms error_with_session = 30000 \<and>
   tick error_with_session = 5009000 \<and> last_activity_time error_with_session = 5007000 \<and>
   sent error_with_session = [ACK, NACK 0x08]"
  by (simp add: error_with_session_def in_session_def idle_ready_val after_init_val eval_defs)

lemma reachable_error_with_session: "reachable error_with_session"
  by (rule reachable_submit [OF reachable_in_session error_with_session_eq])

text \<open>
  C2. The spec has the timeout checks and \<open>bootloader_process_cycle\<close> return in every
  state the core can reach. The code does not: an \<open>END_SESSION\<close> that arrives before
  all bytes leaves the core in \<open>STATE_ERROR\<close> with \<open>session_active\<close> still set
  (\<open>error_with_session\<close>, reached by \<open>bootloader_init\<close>, cycles and two packets).
  When the next cycle is called only after the tick has moved on by 30 s, here
  through 30000 calls of \<open>get_system_tick\<close> from outside the core, the session
  timeout fires in \<open>STATE_ERROR\<close>, and neither the timeout checks nor the cycle
  return, whatever the flash poll answers.
\<close>

theorem stale_session_in_error_never_returns:
  "reachable error_with_session \<and>
   state (tick_reads 30000 error_with_session) = STATE_ERROR \<and>
   session_active (tick_reads 30000 error_with_session) \<and>
   handle_timeout_checks (tick_reads 30000 error_with_session) = None \<and>
   bootloader_process_cycle False (tick_reads 30000 error_with_session) = None \<and>
   bootloader_process_cycle True (tick_reads 30000 error_with_session) = None"
proof -
  let ?s = "tick_reads 30000 error_with_session"
  have st: "state ?s = STATE_ERROR" and sa: "session_active ?s"
    using error_with_session_fields by (simp_all add: tick_reads_eq)
  have old: "session_timeout_ms ?s * 1000 < tick ?s + 1000 - last_activity_time ?s"
    using error_with_session_fields by (simp add: tick_reads_eq)
  from st sa old have "handle_timeout_checks ?s = None"
    by (simp add: handle_timeout_checks_def get_system_tick_def enter_state_eq)
  with session_timeout_in_error_diverges [OF st sa old] st sa reachable_error_with_session
  show ?thesis by simp
qed

section \<open>Leaving emergency recovery\<close>

lemma tick_numeral_first: "numeral k + tick s = tick s + numeral k"
  by (rule add.commute)

text \<open>
  In \<open>STATE_EMERGENCY_RECOVERY\<close>, in any state of the core whatsoever: when the
  session timeout does not fire in the timeout checks, and the tick read for the
  recovery check is more than 10 s after the state entry, the background work
  clears \<open>packets_dropped\<close> and \<open>error_count\<close> and enters \<open>STATE_IDLE\<close>, and
  \<open>force_bootloader_mode\<close> is what it was.
\<close>

lemma recovery_check_fires:
  assumes "state s = STATE_EMERGENCY_RECOVERY"
    and "\<not> (session_active s \<and>
            session_timeout_ms s * 1000 < tick s + 1000 - last_activity_time s)"
    and "10000000 < elapsed_us (tick s + 2000) (state_entry_time s)"
  shows "\<exists>s1 s3. handle_timeout_checks s = Some s1 \<and>
            background_processing (is_flash_operation_complete e s1) = Some s3 \<and>
            state s1 = STATE_EMERGENCY_RECOVERY \<and>
            state s3 = STATE_IDLE \<and> previous_state s3 = STATE_EMERGENCY_RECOVERY \<and>
            packets_dropped s3 = 0 \<and> error_count s3 = 0 \<and>
            force_bootloader_mode s3 = force_bootloader_mode s \<and>
            bootloader_process_cycle e s = process_packets s3"
proof -
  let ?s1 = "s\<lparr>tick := tick s + 1000\<rparr>"
  from assms(1,2) have h: "handle_timeout_checks s = Some ?s1"
    by (auto simp: handle_timeout_checks_def get_system_tick_def)
  let ?s3 = "state_entry STATE_IDLE
      (is_flash_operation_complete e ?s1\<lparr>tick := tick s + 2000, packets_dropped := 0, error_count := 0\<rparr>)"
  from assms(1,3) have b: "background_processing (is_flash_operation_complete e ?s1) = Some ?s3"
    by (simp add: background_processing_def get_system_tick_def is_flash_operation_complete_def
        enter_state_eq word_less_elapsed Let_def tick_numeral_first)
  from assms(1) have p: "state ?s3 = STATE_IDLE" "previous_state ?s3 = STATE_EMERGENCY_RECOVERY"
    "packets_dropped ?s3 = 0" "error_count ?s3 = 0"
    "force_bootloader_mode ?s3 = force_bootloader_mode s"
    by (simp_all add: state_entry_def get_system_tick_def is_flash_operation_complete_def)
  from h b have cy: "bootloader_process_cycle e s = process_packets ?s3"
    by (simp add: bootloader_process_cycle_def Let_def)
  with h b p assms(1) show ?thesis by simp
qed








end
